theory Spec2Isabelle
  imports Main "HOL-Library.Multiset" "HOL-Library.AList"
begin

unbundle bit_operations_syntax

section \<open>JavaScript values and number operations\<close>

text \<open>
  The values that flow through the ECS core are entity ids, array cells and indices.
  A JavaScript Number is modelled by its integer value (\<open>Num\<close>; every Number the code
  computes with is an integer), the Number \<open>Infinity\<close> by \<open>PosInf\<close> (the default fill of
  an untyped dense array), a BigInt by \<open>Big\<close>, and \<open>undefined\<close> (a hole or an
  out-of-range read) by \<open>Undefined\<close>. Strict equality \<open>===\<close> is equality of these values:
  a Number never equals a BigInt.
\<close>

datatype jsval = Num int | PosInf | Big int | Undefined

datatype error =
    TypeError
  | RangeError
  | TooManyBits
  | NonPositiveBits
  | OutOfHandles
  | CapacityExceeded
  | InvalidHandle
  | EntityDoesNotExist
  | NotRegistered
  | NotForEmpty
  | OnlyForEmpty
  | ComponentDoesNotExist
  | BadPageSize
  | BadComponentEntry

text \<open>Sequencing of fallible steps: the first exception ends the call.\<close>

definition ebind :: "error + 'a \<Rightarrow> ('a \<Rightarrow> error + 'b) \<Rightarrow> error + 'b" where
  "ebind m f = (case m of Inl e \<Rightarrow> Inl e | Inr x \<Rightarrow> f x)"

text \<open>\<open>ToInt32\<close> and \<open>ToUint32\<close> of an integer-valued Number.\<close>

definition toInt32 :: "int \<Rightarrow> int" where
  "toInt32 x = signed_take_bit 31 x"

definition toUint32 :: "int \<Rightarrow> int" where
  "toUint32 x = take_bit 32 x"

text \<open>The Number operators \<open>&\<close>, \<open>|\<close>, \<open><<\<close> and \<open>>>>\<close>: operands go through
  \<open>ToInt32\<close> (\<open>ToUint32\<close> for \<open>>>>\<close>), the shift count is taken modulo 32.\<close>

definition js_and :: "int \<Rightarrow> int \<Rightarrow> int" where
  "js_and a b = toInt32 a AND toInt32 b"

definition js_or :: "int \<Rightarrow> int \<Rightarrow> int" where
  "js_or a b = toInt32 a OR toInt32 b"

definition js_shl :: "int \<Rightarrow> nat \<Rightarrow> int" where
  "js_shl a n = toInt32 (push_bit (n mod 32) (toInt32 a))"

definition js_shr_u :: "int \<Rightarrow> nat \<Rightarrow> int" where
  "js_shr_u a n = drop_bit (n mod 32) (toUint32 a)"

text \<open>Number of binary digits of a natural number.\<close>

fun bit_length :: "nat \<Rightarrow> nat" where
  "bit_length n = (if n = 0 then 0 else Suc (bit_length (n div 2)))"

text \<open>
  \<open>Number(b)\<close> for a BigInt \<open>b\<close>, and the result of Number arithmetic on integers: the
  nearest integer with a 53-bit significand, ties to even. It is the identity below
  \<open>2 ^ 53\<close>. (Overflow to \<open>Infinity\<close> starts at \<open>2 ^ 1024\<close>, far above any 64-bit id.)
\<close>

definition toNumber :: "int \<Rightarrow> int" where
  "toNumber x =
     (let a = \<bar>x\<bar>;
          e = bit_length (nat a) - 53;
          q = a div 2 ^ e;
          r = a mod 2 ^ e;
          q' = (if 2 * r > 2 ^ e \<or> (2 * r = 2 ^ e \<and> odd q) then q + 1 else q)
      in sgn x * (q' * 2 ^ e))"

text \<open>An integer is a Number when the conversion leaves it alone.\<close>

definition is_number :: "int \<Rightarrow> bool" where
  "is_number x \<longleftrightarrow> toNumber x = x"

text \<open>The numeric operand of \<open>&\<close> and \<open>>>>\<close> on the Number side: \<open>ToInt32\<close> and
  \<open>ToUint32\<close> send \<open>Infinity\<close> and \<open>undefined\<close> (NaN) to 0; mixing in a BigInt throws.\<close>

fun num_operand :: "jsval \<Rightarrow> error + int" where
  "num_operand (Num n) = Inr n"
| "num_operand PosInf = Inr 0"
| "num_operand Undefined = Inr 0"
| "num_operand (Big n) = Inl TypeError"

section \<open>EntityHandle: the (index, version) codec\<close>

datatype EntityType = Number | BigInt

record handle =
  indexBits :: nat
  versionBits :: nat
  totalBits :: nat
  etype :: EntityType

text \<open>\<open>EntityHandleFactory\<close>: the two checks, then the choice of the BigInt codec
  above 32 bits and of the Number codec otherwise.\<close>

definition EntityHandleFactory :: "int \<Rightarrow> int \<Rightarrow> error + handle" where
  "EntityHandleFactory ib vb =
     (let total = ib + vb in
      if total > 64 then Inl TooManyBits
      else if ib \<le> 0 \<or> vb \<le> 0 then Inl NonPositiveBits
      else Inr \<lparr> indexBits = nat ib, versionBits = nat vb, totalBits = nat total,
                 etype = (if total > 32 then BigInt else Number) \<rparr>)"

text \<open>The masks of the Number codec, \<open>(1 << bits) - 1\<close>, and of the BigInt codec,
  \<open>(1n << BigInt(bits)) - 1n\<close>.\<close>

definition numMask :: "nat \<Rightarrow> int" where
  "numMask bits = js_shl 1 bits - 1"

definition bigMask :: "nat \<Rightarrow> int" where
  "bigMask bits = push_bit bits 1 - 1"

text \<open>\<open>BigInt(x)\<close>: the value of an integer Number, a RangeError for a Number that is not
  an integer (\<open>Infinity\<close>), a TypeError for \<open>undefined\<close>, and a BigInt as it is.\<close>

fun toBigInt :: "jsval \<Rightarrow> error + int" where
  "toBigInt (Num n) = Inr n"
| "toBigInt PosInf = Inl RangeError"
| "toBigInt Undefined = Inl TypeError"
| "toBigInt (Big n) = Inr n"

text \<open>The id that \<open>make\<close> computes once its two arguments are operands of the codec's
  operators: \<open>((index & indexMask) << versionBits) | (version & versionMask)\<close> on Numbers
  or on BigInts.\<close>

definition make_fields :: "handle \<Rightarrow> int \<Rightarrow> int \<Rightarrow> jsval" where
  "make_fields h i v =
     (case etype h of
        BigInt \<Rightarrow>
          Big (push_bit (versionBits h) (i AND bigMask (indexBits h))
               OR (v AND bigMask (versionBits h)))
      | Number \<Rightarrow>
          Num (js_or (js_shl (js_and i (numMask (indexBits h))) (versionBits h))
                     (js_and v (numMask (versionBits h)))))"

text \<open>
  \<open>make(index, version)\<close> on any two values. The Number codec applies \<open>&\<close> to each
  argument, which takes \<open>ToInt32\<close> of a Number (0 for \<open>Infinity\<close> and for \<open>undefined\<close>) and
  throws a TypeError on a BigInt. The BigInt codec applies \<open>BigInt(...)\<close> to each argument.
  The index is converted before the version.
\<close>

definition handle_make :: "handle \<Rightarrow> jsval \<Rightarrow> jsval \<Rightarrow> error + jsval" where
  "handle_make h index version =
     (case etype h of
        BigInt \<Rightarrow>
          ebind (toBigInt index) (\<lambda>i.
            ebind (toBigInt version) (\<lambda>v. Inr (make_fields h i v)))
      | Number \<Rightarrow>
          ebind (num_operand index) (\<lambda>i.
            ebind (num_operand version) (\<lambda>v. Inr (make_fields h i v))))"

text \<open>\<open>index(id)\<close> and \<open>version(id)\<close>. The BigInt codec applies BigInt operators to
  the id, which throw a TypeError on anything but a BigInt; the Number codec applies
  Number operators, which throw on a BigInt.\<close>

definition handle_index :: "handle \<Rightarrow> jsval \<Rightarrow> error + int" where
  "handle_index h x =
     (case etype h of
        BigInt \<Rightarrow>
          (case x of
             Big n \<Rightarrow> Inr (toNumber (drop_bit (versionBits h) n AND bigMask (indexBits h)))
           | _ \<Rightarrow> Inl TypeError)
      | Number \<Rightarrow>
          (case num_operand x of
             Inl e \<Rightarrow> Inl e
           | Inr n \<Rightarrow> Inr (js_and (js_shr_u n (versionBits h)) (numMask (indexBits h)))))"

definition handle_version :: "handle \<Rightarrow> jsval \<Rightarrow> error + int" where
  "handle_version h x =
     (case etype h of
        BigInt \<Rightarrow>
          (case x of
             Big n \<Rightarrow> Inr (toNumber (n AND bigMask (versionBits h)))
           | _ \<Rightarrow> Inl TypeError)
      | Number \<Rightarrow>
          (case num_operand x of
             Inl e \<Rightarrow> Inl e
           | Inr n \<Rightarrow> Inr (js_and n (numMask (versionBits h)))))"

text \<open>Whether a value is a BigInt.\<close>

fun is_big :: "jsval \<Rightarrow> bool" where
  "is_big (Big n) = True"
| "is_big x = False"

text \<open>The three pre-built codecs, \<open>EntityHandleFactory(12, 4)\<close>, \<open>(20, 12)\<close> and
  \<open>(32, 32)\<close>, as the records the factory returns for them.\<close>

definition EntityHandleSmall :: handle where
  "EntityHandleSmall = \<lparr> indexBits = 12, versionBits = 4, totalBits = 16, etype = Number \<rparr>"

definition EntityHandleMedium :: handle where
  "EntityHandleMedium = \<lparr> indexBits = 20, versionBits = 12, totalBits = 32, etype = Number \<rparr>"

definition EntityHandleLarge :: handle where
  "EntityHandleLarge = \<lparr> indexBits = 32, versionBits = 32, totalBits = 64, etype = BigInt \<rparr>"

section \<open>Arrays\<close>

text \<open>
  The stores keep their data in a \<open>Uint32Array\<close>, a \<open>BigUint64Array\<close> or a plain
  \<open>Array\<close>. A read outside the array is \<open>undefined\<close>. A write converts the value to
  the element type first (a BigInt into a \<open>Uint32Array\<close>, or anything but a BigInt into
  a \<open>BigUint64Array\<close>, throws a TypeError); outside a typed array the write is dropped,
  beyond the end of a plain array it extends the array, leaving holes.
\<close>

datatype array_kind = Uint32Array | BigUint64Array | PlainArray

fun to_elem :: "array_kind \<Rightarrow> jsval \<Rightarrow> error + jsval" where
  "to_elem Uint32Array (Num n) = Inr (Num (toUint32 n))"
| "to_elem Uint32Array PosInf = Inr (Num 0)"
| "to_elem Uint32Array Undefined = Inr (Num 0)"
| "to_elem Uint32Array (Big n) = Inl TypeError"
| "to_elem BigUint64Array (Big n) = Inr (Big (take_bit 64 n))"
| "to_elem BigUint64Array (Num n) = Inl TypeError"
| "to_elem BigUint64Array PosInf = Inl TypeError"
| "to_elem BigUint64Array Undefined = Inl TypeError"
| "to_elem PlainArray v = Inr v"

definition array_get :: "jsval list \<Rightarrow> int \<Rightarrow> jsval" where
  "array_get xs i = (if 0 \<le> i \<and> i < int (length xs) then xs ! nat i else Undefined)"

definition array_set :: "array_kind \<Rightarrow> jsval list \<Rightarrow> int \<Rightarrow> jsval \<Rightarrow> error + jsval list" where
  "array_set k xs i v =
     (case to_elem k v of
        Inl e \<Rightarrow> Inl e
      | Inr w \<Rightarrow>
          Inr (if 0 \<le> i \<and> i < int (length xs) then xs[nat i := w]
               else if k = PlainArray \<and> int (length xs) \<le> i
                 then xs @ replicate (nat i - length xs) Undefined @ [w]
               else xs))"

section \<open>SparseSet\<close>

definition TOMBSTONE :: int where
  "TOMBSTONE = -1"

definition FAILED_OPERATION :: int where
  "FAILED_OPERATION = -1"

definition SUCCESS_OPERATION :: int where
  "SUCCESS_OPERATION = 0"

definition DEFAULT_DENSE_VAL :: jsval where
  "DEFAULT_DENSE_VAL = PosInf"

record SparseSetOptions =
  opt_typedArray :: bool
  opt_poolSize :: int
  opt_pageSize :: int
  opt_entityHandler :: handle

text \<open>
  The sparse table is an array of pages with holes, each page an array of Numbers with
  holes: a map from page index to a map from page offset to the stored dense index (or
  \<open>TOMBSTONE\<close>). \<open>slength\<close> is the field \<open>#length\<close>.
\<close>

record SparseSet =
  pageSize :: int
  sparse :: "int \<rightharpoonup> (int \<rightharpoonup> int)"
  dense :: "jsval list"
  slength :: int
  typedArray :: bool
  entityHandler :: handle

text \<open>
  The lengths that \<open>new Uint32Array(n)\<close> and \<open>new Array(n)\<close> accept: a negative length
  is a RangeError for both, as is a length of \<open>2 ^ 32\<close> or more for an \<open>Array\<close> and one of
  \<open>2 ^ 53\<close> or more for a typed array. (An engine may run out of memory below these
  bounds; that is not modelled.)
\<close>

definition array_length_ok :: "bool \<Rightarrow> int \<Rightarrow> bool" where
  "array_length_ok typed n \<longleftrightarrow> 0 \<le> n \<and> (if typed then n < 2 ^ 53 else n < 2 ^ 32)"

text \<open>The constructor: \<open>pageSize\<close> must be a power of two (\<open>pageSize & (pageSize - 1)\<close>
  is 0) and at least 128; then the dense array of \<open>poolSize\<close> cells is allocated.\<close>

definition SparseSet_new :: "SparseSetOptions \<Rightarrow> error + SparseSet" where
  "SparseSet_new config =
     (if opt_pageSize config = 0 \<or> js_and (opt_pageSize config) (opt_pageSize config - 1) \<noteq> 0
        then Inl BadPageSize
      else if opt_pageSize config < 128 then Inl BadPageSize
      else if \<not> array_length_ok (opt_typedArray config) (opt_poolSize config) then Inl RangeError
      else Inr \<lparr> pageSize = opt_pageSize config,
                 sparse = Map.empty,
                 dense = (if opt_typedArray config
                          then replicate (nat (opt_poolSize config)) (Num 0)
                          else replicate (nat (opt_poolSize config)) DEFAULT_DENSE_VAL),
                 slength = 0,
                 typedArray = opt_typedArray config,
                 entityHandler = opt_entityHandler config \<rparr>)"

definition dense_kind :: "SparseSet \<Rightarrow> array_kind" where
  "dense_kind s = (if typedArray s then Uint32Array else PlainArray)"

text \<open>\<open>Math.floor(index / pageSize)\<close> and \<open>index & (pageSize - 1)\<close>.\<close>

definition pageIndex :: "SparseSet \<Rightarrow> jsval \<Rightarrow> error + int" where
  "pageIndex s entityID =
     ebind (handle_index (entityHandler s) entityID) (\<lambda>i. Inr (i div pageSize s))"

definition pageOffset :: "SparseSet \<Rightarrow> jsval \<Rightarrow> error + int" where
  "pageOffset s entityID =
     ebind (handle_index (entityHandler s) entityID) (\<lambda>i. Inr (js_and i (pageSize s - 1)))"

definition capacity :: "SparseSet \<Rightarrow> int" where
  "capacity s = int (length (dense s))"

definition reset :: "SparseSet \<Rightarrow> SparseSet" where
  "reset s = s\<lparr> slength := 0 \<rparr>"

definition clear :: "SparseSet \<Rightarrow> SparseSet" where
  "clear s = s\<lparr> slength := 0, sparse := Map.empty \<rparr>"

definition resize :: "SparseSet \<Rightarrow> int \<Rightarrow> int \<times> SparseSet" where
  "resize s newCap =
     (if newCap \<le> capacity s then (FAILED_OPERATION, s)
      else if typedArray s
        then (SUCCESS_OPERATION,
              s\<lparr> dense := dense s @ replicate (nat newCap - length (dense s)) (Num 0) \<rparr>)
      else (SUCCESS_OPERATION,
            s\<lparr> dense := dense s @ replicate (nat newCap - length (dense s)) DEFAULT_DENSE_VAL \<rparr>))"

definition SparseSet_len :: "SparseSet \<Rightarrow> int" where
  "SparseSet_len s = slength s"

definition SparseSet_data :: "SparseSet \<Rightarrow> jsval list" where
  "SparseSet_data s = dense s"

definition SparseSet_contains :: "SparseSet \<Rightarrow> jsval \<Rightarrow> error + bool" where
  "SparseSet_contains s entityID =
     ebind (pageIndex s entityID) (\<lambda>pi.
       case sparse s pi of
         None \<Rightarrow> Inr False
       | Some page \<Rightarrow>
           ebind (pageOffset s entityID) (\<lambda>po.
             case page po of
               None \<Rightarrow> Inr False
             | Some denseIdx \<Rightarrow> Inr (denseIdx \<noteq> TOMBSTONE \<and> denseIdx < slength s)))"

definition SparseSet_index :: "SparseSet \<Rightarrow> jsval \<Rightarrow> error + int" where
  "SparseSet_index s entityID =
     ebind (pageIndex s entityID) (\<lambda>pi.
       case sparse s pi of
         None \<Rightarrow> Inr FAILED_OPERATION
       | Some page \<Rightarrow>
           ebind (pageOffset s entityID) (\<lambda>po.
             case page po of
               None \<Rightarrow> Inr FAILED_OPERATION
             | Some denseIdx \<Rightarrow>
                 if denseIdx \<noteq> TOMBSTONE \<and> denseIdx < slength s then Inr denseIdx
                 else Inr FAILED_OPERATION))"

text \<open>\<open>this.#sparse[p][o] = v\<close>: a TypeError when the page does not exist.\<close>

definition sparse_set :: "(int \<rightharpoonup> (int \<rightharpoonup> int)) \<Rightarrow> int \<Rightarrow> int \<Rightarrow> int
    \<Rightarrow> error + (int \<rightharpoonup> (int \<rightharpoonup> int))" where
  "sparse_set sp p off v =
     (case sp p of
        None \<Rightarrow> Inl TypeError
      | Some page \<Rightarrow> Inr (sp(p \<mapsto> page(off \<mapsto> v))))"

definition getOrCreatePage :: "SparseSet \<Rightarrow> int \<Rightarrow> SparseSet" where
  "getOrCreatePage s p =
     (case sparse s p of
        None \<Rightarrow> s\<lparr> sparse := (sparse s)(p \<mapsto> Map.empty) \<rparr>
      | Some page \<Rightarrow> s)"

definition SparseSet_add :: "SparseSet \<Rightarrow> jsval \<Rightarrow> bool \<Rightarrow> error + int \<times> SparseSet" where
  "SparseSet_add s entityID doResize =
     ebind (SparseSet_contains s entityID) (\<lambda>c.
       if c then ebind (SparseSet_index s entityID) (\<lambda>i. Inr (i, s))
       else
         let denseIndex = slength s;
             grown = (if denseIndex \<ge> capacity s
                      then (if \<not> doResize then (FAILED_OPERATION, s)
                            else resize s (denseIndex * 2))
                      else (SUCCESS_OPERATION, s))
         in if fst grown = FAILED_OPERATION then Inr (FAILED_OPERATION, s)
            else
              ebind (pageIndex (snd grown) entityID) (\<lambda>pi.
                let s1 = getOrCreatePage (snd grown) pi in
                ebind (pageOffset s1 entityID) (\<lambda>po.
                  ebind (sparse_set (sparse s1) pi po denseIndex) (\<lambda>sp.
                    ebind (array_set (dense_kind s1) (dense s1) denseIndex entityID) (\<lambda>d.
                      Inr (denseIndex,
                           s1\<lparr> sparse := sp, dense := d, slength := slength s1 + 1 \<rparr>))))))"

text \<open>
  \<open>remove\<close>. The page of the entity and the page of the last dense entity may be the
  same object, so both writes go through the sparse table: the cell of the last entity
  first, the tombstone second.
\<close>

definition SparseSet_remove :: "SparseSet \<Rightarrow> jsval \<Rightarrow> error + int \<times> SparseSet" where
  "SparseSet_remove s entityID =
     (if slength s = 0 then Inr (FAILED_OPERATION, s)
      else
        ebind (pageIndex s entityID) (\<lambda>pi.
          case sparse s pi of
            None \<Rightarrow> Inr (FAILED_OPERATION, s)
          | Some page \<Rightarrow>
              ebind (pageOffset s entityID) (\<lambda>po.
                case page po of
                  None \<Rightarrow> Inr (FAILED_OPERATION, s)
                | Some denseIdx \<Rightarrow>
                    if denseIdx = TOMBSTONE then Inr (FAILED_OPERATION, s)
                    else
                      let lastDenseIdx = slength s - 1;
                          lastDenseEntity = array_get (dense s) lastDenseIdx
                      in ebind
                           (if denseIdx \<noteq> lastDenseIdx
                            then
                              ebind (array_set (dense_kind s) (dense s) denseIdx lastDenseEntity) (\<lambda>d.
                                ebind (pageIndex s lastDenseEntity) (\<lambda>lastPageIndex.
                                  ebind (pageOffset s lastDenseEntity) (\<lambda>lastPageOffset.
                                    ebind (sparse_set (sparse s) lastPageIndex lastPageOffset denseIdx) (\<lambda>sp.
                                      Inr (s\<lparr> sparse := sp, dense := d \<rparr>)))))
                            else Inr s)
                           (\<lambda>s1.
                              ebind (sparse_set (sparse s1) pi po TOMBSTONE) (\<lambda>sp.
                                Inr (SUCCESS_OPERATION,
                                     s1\<lparr> sparse := sp, slength := slength s1 - 1 \<rparr>))))))"

definition SparseSet_swap :: "SparseSet \<Rightarrow> jsval \<Rightarrow> jsval \<Rightarrow> error + int \<times> SparseSet" where
  "SparseSet_swap s ent1 ent2 =
     (if slength s = 0 \<or> ent1 = ent2 then Inr (FAILED_OPERATION, s)
      else
        ebind (pageIndex s ent1) (\<lambda>pi1.
          case sparse s pi1 of
            None \<Rightarrow> Inr (FAILED_OPERATION, s)
          | Some page1 \<Rightarrow>
              ebind (pageIndex s ent2) (\<lambda>pi2.
                case sparse s pi2 of
                  None \<Rightarrow> Inr (FAILED_OPERATION, s)
                | Some page2 \<Rightarrow>
                    ebind (pageOffset s ent1) (\<lambda>pageOffset1.
                      case page1 pageOffset1 of
                        None \<Rightarrow> Inr (FAILED_OPERATION, s)
                      | Some denseIdx1 \<Rightarrow>
                          if denseIdx1 = TOMBSTONE then Inr (FAILED_OPERATION, s)
                          else
                            ebind (pageOffset s ent2) (\<lambda>pageOffset2.
                              case page2 pageOffset2 of
                                None \<Rightarrow> Inr (FAILED_OPERATION, s)
                              | Some denseIdx2 \<Rightarrow>
                                  if denseIdx2 = TOMBSTONE then Inr (FAILED_OPERATION, s)
                                  else if denseIdx1 < 0 \<or> denseIdx1 \<ge> slength s \<or>
                                          denseIdx2 < 0 \<or> denseIdx2 \<ge> slength s
                                    then Inr (FAILED_OPERATION, s)
                                  else
                                    let temp = array_get (dense s) denseIdx1 in
                                    ebind (array_set (dense_kind s) (dense s) denseIdx1
                                             (array_get (dense s) denseIdx2)) (\<lambda>d1.
                                      ebind (array_set (dense_kind s) d1 denseIdx2 temp) (\<lambda>d2.
                                        ebind (sparse_set (sparse s) pi1 pageOffset1 denseIdx2) (\<lambda>sp1.
                                          ebind (sparse_set sp1 pi2 pageOffset2 denseIdx1) (\<lambda>sp2.
                                            Inr (SUCCESS_OPERATION,
                                                 s\<lparr> sparse := sp2, dense := d2 \<rparr>))))))))))"

text \<open>
  \<open>Array.prototype.sort\<close> and \<open>TypedArray.prototype.sort\<close> with a comparator: the
  array is reordered so that \<open>a\<close> comes before \<open>b\<close> when \<open>cmp(a, b) < 0\<close>, elements that
  compare equal keep their order (the sort is stable), and \<open>undefined\<close> elements of a
  plain array go to the end without being compared. For a consistent comparator this
  fixes the result: it is what the stable insertion sort below computes.
\<close>

fun insort_cmp :: "('a \<Rightarrow> 'a \<Rightarrow> int) \<Rightarrow> 'a \<Rightarrow> 'a list \<Rightarrow> 'a list" where
  "insort_cmp cmp x [] = [x]"
| "insort_cmp cmp x (y # ys) =
     (if cmp x y \<le> 0 then x # y # ys else y # insort_cmp cmp x ys)"

definition sort_cmp :: "('a \<Rightarrow> 'a \<Rightarrow> int) \<Rightarrow> 'a list \<Rightarrow> 'a list" where
  "sort_cmp cmp xs = foldr (insort_cmp cmp) xs []"

definition array_sort :: "(jsval \<Rightarrow> jsval \<Rightarrow> int) \<Rightarrow> jsval list \<Rightarrow> jsval list" where
  "array_sort cmp xs =
     sort_cmp cmp (filter (\<lambda>x. x \<noteq> Undefined) xs) @ filter (\<lambda>x. x = Undefined) xs"

text \<open>The loop of \<open>sort\<close> that writes each position back, from \<open>i\<close> up to \<open>#length\<close>;
  \<open>n\<close> counts the iterations left.\<close>

fun sort_rebuild :: "SparseSet \<Rightarrow> int \<Rightarrow> nat \<Rightarrow> error + SparseSet" where
  "sort_rebuild s i 0 = Inr s"
| "sort_rebuild s i (Suc n) =
     (let entity = array_get (dense s) i in
      ebind (pageIndex s entity) (\<lambda>p.
        ebind (pageOffset s entity) (\<lambda>off.
          ebind (sparse_set (sparse s) p off i) (\<lambda>sp.
            sort_rebuild (s\<lparr> sparse := sp \<rparr>) (i + 1) n))))"

definition SparseSet_sort :: "SparseSet \<Rightarrow> (jsval \<Rightarrow> jsval \<Rightarrow> int) \<Rightarrow> error + int \<times> SparseSet" where
  "SparseSet_sort s comparatorFunc =
     (let s1 = s\<lparr> dense := array_sort comparatorFunc (dense s) \<rparr> in
      ebind (sort_rebuild s1 0 (nat (slength s1))) (\<lambda>s2. Inr (SUCCESS_OPERATION, s2)))"

section \<open>The invariants of a sparse set\<close>

text \<open>The sparse cell that an entity index addresses.\<close>

definition cell :: "SparseSet \<Rightarrow> int \<Rightarrow> int option" where
  "cell s k =
     (case sparse s (k div pageSize s) of
        None \<Rightarrow> None
      | Some page \<Rightarrow> page (js_and k (pageSize s - 1)))"

text \<open>The page sizes the constructor is meant for: a power of two from 128 up to
  \<open>2 ^ 31\<close>.\<close>

definition pageSize_ok :: "SparseSet \<Rightarrow> bool" where
  "pageSize_ok s \<longleftrightarrow> (\<exists>m. 7 \<le> m \<and> m \<le> 31 \<and> pageSize s = 2 ^ m)"

text \<open>
  The invariants of spec section 3: the length is within the capacity; every live dense
  position is addressed by the sparse cell of its entity; every sparse cell holds the
  tombstone or a position, and a cell that holds a live position belongs to the entity at
  that position; the dense array holds values of its element type.
\<close>

definition SparseSet_inv :: "SparseSet \<Rightarrow> bool" where
  "SparseSet_inv s \<longleftrightarrow>
     pageSize_ok s \<and> 0 \<le> slength s \<and> slength s \<le> int (length (dense s)) \<and>
     (\<forall>i. 0 \<le> i \<and> i < slength s \<longrightarrow>
        (\<exists>k. handle_index (entityHandler s) (dense s ! nat i) = Inr k \<and> cell s k = Some i)) \<and>
     (\<forall>k v. cell s k = Some v \<longrightarrow>
        -1 \<le> v \<and>
        (0 \<le> v \<and> v < slength s \<longrightarrow>
           handle_index (entityHandler s) (dense s ! nat v) = Inr k)) \<and>
     (\<forall>x \<in> set (dense s). to_elem (dense_kind s) x = Inr x)"

section \<open>EntityStore\<close>

definition DEFAULT_ENTITY_VALUE :: jsval where
  "DEFAULT_ENTITY_VALUE = Num 0"

definition IDX_SENTINEL :: int where
  "IDX_SENTINEL = -1"

record EntityStoreOptions =
  opt_handler :: handle
  opt_capacity :: int
  opt_resizable :: bool
  opt_isTyped :: bool

definition DefaultEntityStoreOptions :: EntityStoreOptions where
  "DefaultEntityStoreOptions =
     \<lparr> opt_handler = EntityHandleMedium, opt_capacity = 1000, opt_resizable = True,
       opt_isTyped = True \<rparr>"

record EntityStore =
  es_entities :: "jsval list"
  es_entityHandler :: handle
  append_index :: int
  free_slot :: int
  INVALID_IDX :: jsval
  cap :: int
  isTypedArray :: bool
  resizable :: bool

text \<open>The zero a typed entity array is created with, and the kind of the array.\<close>

definition es_zero :: "handle \<Rightarrow> jsval" where
  "es_zero h = (if etype h = Number then Num 0 else Big 0)"

definition es_kind :: "EntityStore \<Rightarrow> array_kind" where
  "es_kind st =
     (if isTypedArray st
      then (if etype (es_entityHandler st) = Number then Uint32Array else BigUint64Array)
      else PlainArray)"

text \<open>The constructor. A capacity that is not positive is replaced by the default 1000.
  \<open>INVALID_IDX\<close> is the Number \<open>(1 << indexBits) - 1\<close> for a Number codec and the BigInt
  \<open>2n ** indexBits - 1n\<close> for a BigInt codec.\<close>

definition EntityStore_new :: "EntityStoreOptions \<Rightarrow> EntityStore" where
  "EntityStore_new config =
     (let capacity = (if opt_capacity config \<le> 0 then opt_capacity DefaultEntityStoreOptions
                      else opt_capacity config);
          h = opt_handler config
      in \<lparr> es_entities =
             (if opt_isTyped config then replicate (nat capacity) (es_zero h)
              else replicate (nat capacity) DEFAULT_ENTITY_VALUE),
           es_entityHandler = h,
           append_index = 0,
           free_slot = -1,
           INVALID_IDX =
             (if etype h = Number then Num (js_shl 1 (indexBits h) - 1)
              else Big (2 ^ indexBits h - 1)),
           cap = capacity,
           isTypedArray = opt_isTyped config,
           resizable = opt_resizable config \<rparr>)"

text \<open>The growth step of \<open>create\<close>: a typed array is replaced by one of twice the capacity
  that receives the old contents (\<open>set\<close> throws a RangeError when they do not fit); a plain
  array has its length set to twice the capacity and the new cells filled with
  \<open>INVALID_IDX\<close>.\<close>

definition es_grow :: "EntityStore \<Rightarrow> error + EntityStore" where
  "es_grow st =
     (if isTypedArray st
      then (if int (length (es_entities st)) > cap st * 2 then Inl RangeError
            else Inr (st\<lparr> es_entities :=
                        es_entities st @
                        replicate (nat (cap st * 2) - length (es_entities st))
                          (es_zero (es_entityHandler st)),
                      cap := cap st * 2 \<rparr>))
      else Inr (st\<lparr> es_entities :=
                  take (nat (cap st * 2)) (es_entities st) @
                  replicate (nat (cap st * 2) - length (es_entities st)) (INVALID_IDX st),
                cap := cap st * 2 \<rparr>))"

definition EntityStore_create :: "EntityStore \<Rightarrow> error + jsval \<times> EntityStore" where
  "EntityStore_create st =
     (if free_slot st \<noteq> IDX_SENTINEL
      then
        let ent = array_get (es_entities st) (free_slot st) in
        ebind (handle_version (es_entityHandler st) ent) (\<lambda>version.
          ebind (handle_index (es_entityHandler st) ent) (\<lambda>next_free_idx.
            ebind (handle_make (es_entityHandler st) (Num (free_slot st)) (Num version)) (\<lambda>newEnt.
              ebind (array_set (es_kind st) (es_entities st) (free_slot st) newEnt) (\<lambda>ents.
                Inr (newEnt, st\<lparr> es_entities := ents, free_slot := next_free_idx \<rparr>)))))
      else if Num (append_index st) = INVALID_IDX st then Inl OutOfHandles
      else
        ebind (if append_index st = cap st - 1
               then (if \<not> resizable st then Inl CapacityExceeded else es_grow st)
               else Inr st) (\<lambda>st1.
          ebind (handle_make (es_entityHandler st1) (Num (append_index st1)) (Num 0)) (\<lambda>entity.
            ebind (array_set (es_kind st1) (es_entities st1) (append_index st1) entity) (\<lambda>ents.
              Inr (entity, st1\<lparr> es_entities := ents, append_index := append_index st1 + 1 \<rparr>)))))"

definition EntityStore_isAlive :: "EntityStore \<Rightarrow> jsval \<Rightarrow> error + bool" where
  "EntityStore_isAlive st entity =
     ebind (handle_index (es_entityHandler st) entity) (\<lambda>index.
       Inr (index < append_index st \<and> array_get (es_entities st) index = entity))"

text \<open>\<open>remove\<close>; \<open>version + 1\<close> is Number arithmetic.\<close>

definition EntityStore_remove :: "EntityStore \<Rightarrow> jsval \<Rightarrow> error + EntityStore" where
  "EntityStore_remove st entity =
     ebind (EntityStore_isAlive st entity) (\<lambda>alive.
       if \<not> alive then Inl InvalidHandle
       else
         ebind (handle_index (es_entityHandler st) entity) (\<lambda>index.
           ebind (handle_version (es_entityHandler st) entity) (\<lambda>version.
             ebind (handle_make (es_entityHandler st) (Num (free_slot st))
                      (Num (toNumber (version + 1)))) (\<lambda>freed.
               ebind (array_set (es_kind st) (es_entities st) index freed) (\<lambda>ents.
                 Inr (st\<lparr> es_entities := ents, free_slot := index \<rparr>))))))"

section \<open>Sequences of EntityStore operations\<close>

text \<open>
  A caller's sequence of \<open>create()\<close> and \<open>remove(e)\<close> calls. A call that throws does so
  before it changes the store, so it leaves the store as it was.
\<close>

datatype es_op = Create | Remove jsval

fun es_step :: "EntityStore \<Rightarrow> es_op \<Rightarrow> EntityStore" where
  "es_step st Create = (case EntityStore_create st of Inl err \<Rightarrow> st | Inr (e, st1) \<Rightarrow> st1)"
| "es_step st (Remove x) = (case EntityStore_remove st x of Inl err \<Rightarrow> st | Inr st1 \<Rightarrow> st1)"

definition es_run :: "EntityStore \<Rightarrow> es_op list \<Rightarrow> EntityStore" where
  "es_run st ops = foldl es_step st ops"

text \<open>The number of \<open>remove\<close> calls in a sequence whose entity decodes to slot \<open>idx\<close>.\<close>

fun recycles :: "handle \<Rightarrow> int \<Rightarrow> es_op list \<Rightarrow> nat" where
  "recycles h idx [] = 0"
| "recycles h idx (Create # ops) = recycles h idx ops"
| "recycles h idx (Remove x # ops) =
     (if handle_index h x = Inr idx then Suc (recycles h idx ops) else recycles h idx ops)"

text \<open>\<open>n\<close> calls of \<open>create()\<close>, collecting the handles, and \<open>remove\<close> of each entity
  of a list in turn.\<close>

fun create_n :: "nat \<Rightarrow> EntityStore \<Rightarrow> error + jsval list \<times> EntityStore" where
  "create_n 0 st = Inr ([], st)"
| "create_n (Suc n) st =
     ebind (EntityStore_create st) (\<lambda>(e, st1).
       ebind (create_n n st1) (\<lambda>(es, st2). Inr (e # es, st2)))"

fun remove_all :: "jsval list \<Rightarrow> EntityStore \<Rightarrow> error + EntityStore" where
  "remove_all [] st = Inr st"
| "remove_all (e # es) st = ebind (EntityStore_remove st e) (\<lambda>st1. remove_all es st1)"

text \<open>\<open>n\<close> rounds of \<open>create()\<close> followed by \<open>remove\<close> of the created entity.\<close>

fun recycle_slot :: "nat \<Rightarrow> EntityStore \<Rightarrow> error + EntityStore" where
  "recycle_slot 0 st = Inr st"
| "recycle_slot (Suc n) st =
     ebind (EntityStore_create st) (\<lambda>(e, st1).
       ebind (EntityStore_remove st1 e) (\<lambda>st2. recycle_slot n st2))"

text \<open>
  The state of a slot in the proofs about recycling: the free list is not empty, its head
  is a slot index, slot \<open>idx\<close> is a cell of the array, and the version field of the cell
  lies between \<open>lo\<close> and \<open>hi\<close>.
\<close>

definition slot_version_in :: "EntityStore \<Rightarrow> int \<Rightarrow> int \<Rightarrow> int \<Rightarrow> bool" where
  "slot_version_in st idx lo hi \<longleftrightarrow>
     0 \<le> free_slot st \<and> free_slot st < 2 ^ indexBits (es_entityHandler st) \<and>
     0 \<le> idx \<and> idx < int (length (es_entities st)) \<and>
     (\<exists>w. handle_version (es_entityHandler st) (es_entities st ! nat idx) = Inr w \<and>
          lo \<le> w \<and> w \<le> hi)"

text \<open>The slot and the version a handle decodes to (\<open>-1\<close> when decoding throws).\<close>

definition slot_of :: "handle \<Rightarrow> jsval \<Rightarrow> int" where
  "slot_of h e = (case handle_index h e of Inl err \<Rightarrow> -1 | Inr i \<Rightarrow> i)"

definition version_of :: "handle \<Rightarrow> jsval \<Rightarrow> int" where
  "version_of h e = (case handle_version h e of Inl err \<Rightarrow> -1 | Inr v \<Rightarrow> v)"

text \<open>
  The free list as the proofs see it: starting at \<open>fs\<close>, the cells of the listed slots
  hold the listed versions and each links to the next listed slot; the slots are distinct.
\<close>

fun free_chain :: "EntityStore \<Rightarrow> int \<Rightarrow> (int \<times> int) list \<Rightarrow> bool" where
  "free_chain st fs [] = True"
| "free_chain st fs ((i, v) # rest) =
     (fs = i \<and> 0 \<le> i \<and> i < int (length (es_entities st)) \<and>
      i < 2 ^ indexBits (es_entityHandler st) \<and>
      0 \<le> v \<and> v < 2 ^ versionBits (es_entityHandler st) \<and>
      handle_version (es_entityHandler st) (es_entities st ! nat i) = Inr v \<and>
      i \<notin> fst ` set rest \<and>
      (case handle_index (es_entityHandler st) (es_entities st ! nat i) of
         Inl err \<Rightarrow> False
       | Inr nxt \<Rightarrow> free_chain st nxt rest))"

section \<open>ComponentStore\<close>

definition ComponentStandard :: int where
  "ComponentStandard = 1"

definition ComponentEmpty :: int where
  "ComponentEmpty = 2"

text \<open>
  The payload array is a plain array of component objects; \<open>None\<close> stands for \<open>null\<close>,
  \<open>undefined\<close> and holes. \<open>compConstructor\<close> is the component type the store was
  created for. What \<open>new type(...args)\<close> builds is given by a function \<open>construct\<close> from
  the type and the arguments to the payload, a parameter of the operations that call it.
\<close>

record ('k, 'p) ComponentStore =
  cs_set :: SparseSet
  cs_components :: "'p option list"
  compConstructor :: 'k
  isEmptyComp :: bool

definition comp_get :: "'p option list \<Rightarrow> int \<Rightarrow> 'p option" where
  "comp_get xs i = (if 0 \<le> i \<and> i < int (length xs) then xs ! nat i else None)"

definition comp_set :: "'p option list \<Rightarrow> int \<Rightarrow> 'p option \<Rightarrow> 'p option list" where
  "comp_set xs i v =
     (if 0 \<le> i \<and> i < int (length xs) then xs[nat i := v]
      else if int (length xs) \<le> i then xs @ replicate (nat i - length xs) None @ [v]
      else xs)"

text \<open>\<open>arr.length = n; arr.fill(null, start)\<close> with \<open>start\<close> the old length.\<close>

definition comp_extend :: "'p option list \<Rightarrow> int \<Rightarrow> 'p option list" where
  "comp_extend xs n = take (nat n) xs @ replicate (nat n - length xs) None"

text \<open>The constructor: a standard store allocates \<open>new Array(poolSize)\<close> for the payloads
  before it constructs the sparse set; a tag store starts with the empty array.\<close>

definition ComponentStore_new :: "'k \<Rightarrow> int \<Rightarrow> SparseSetOptions \<Rightarrow> error + ('k, 'p) ComponentStore" where
  "ComponentStore_new type Ctype config =
     (if Ctype \<noteq> ComponentEmpty \<and> \<not> array_length_ok False (opt_poolSize config)
      then Inl RangeError
      else
        ebind (SparseSet_new config) (\<lambda>s.
          Inr \<lparr> cs_set = s,
                cs_components = (if Ctype = ComponentEmpty then []
                                 else replicate (nat (opt_poolSize config)) None),
                compConstructor = type,
                isEmptyComp = (Ctype = ComponentEmpty) \<rparr>))"

definition reserve :: "('k, 'p) ComponentStore \<Rightarrow> int \<Rightarrow> int \<times> ('k, 'p) ComponentStore" where
  "reserve st newCap =
     (if newCap \<le> capacity (cs_set st) then (FAILED_OPERATION, st)
      else
        let st1 = st\<lparr> cs_set := snd (resize (cs_set st) newCap) \<rparr> in
        if \<not> isEmptyComp st
        then (SUCCESS_OPERATION, st1\<lparr> cs_components := comp_extend (cs_components st1) newCap \<rparr>)
        else (SUCCESS_OPERATION, st1))"

definition ComponentStore_add ::
    "('k \<Rightarrow> 'a \<Rightarrow> 'p) \<Rightarrow> ('k, 'p) ComponentStore \<Rightarrow> jsval \<Rightarrow> 'a \<Rightarrow> bool \<Rightarrow> bool
      \<Rightarrow> error + int \<times> ('k, 'p) ComponentStore" where
  "ComponentStore_add construct st entityID args replace doResize =
     ebind (SparseSet_contains (cs_set st) entityID) (\<lambda>existed.
       ebind (SparseSet_add (cs_set st) entityID doResize) (\<lambda>(idx, s1).
         if idx = FAILED_OPERATION then Inr (FAILED_OPERATION, st\<lparr> cs_set := s1 \<rparr>)
         else if isEmptyComp st then Inr (SUCCESS_OPERATION, st\<lparr> cs_set := s1 \<rparr>)
         else if idx \<ge> int (length (cs_components st)) \<and> \<not> doResize
           then ebind (SparseSet_remove s1 entityID) (\<lambda>(_, s2).
                  Inr (FAILED_OPERATION, st\<lparr> cs_set := s2 \<rparr>))
         else
           let comps = (if idx \<ge> int (length (cs_components st))
                        then comp_extend (cs_components st)
                               (max (int (length (cs_components st)) * 2) (idx + 1))
                        else cs_components st)
           in if existed \<and> \<not> replace
              then Inr (SUCCESS_OPERATION, st\<lparr> cs_set := s1, cs_components := comps \<rparr>)
              else Inr (SUCCESS_OPERATION,
                        st\<lparr> cs_set := s1,
                            cs_components :=
                              comp_set comps idx (Some (construct (compConstructor st) args)) \<rparr>)))"

definition ComponentStore_remove ::
    "('k, 'p) ComponentStore \<Rightarrow> jsval \<Rightarrow> error + int \<times> ('k, 'p) ComponentStore" where
  "ComponentStore_remove st entityID =
     ebind (SparseSet_index (cs_set st) entityID) (\<lambda>idx.
       if idx = FAILED_OPERATION then Inr (FAILED_OPERATION, st)
       else
         let comps =
               (if \<not> isEmptyComp st
                then
                  let lastIdx = SparseSet_len (cs_set st) - 1;
                      c1 = (if lastIdx \<noteq> idx
                            then comp_set (cs_components st) idx (comp_get (cs_components st) lastIdx)
                            else cs_components st)
                  in comp_set c1 lastIdx None
                else cs_components st)
         in ebind (SparseSet_remove (cs_set st) entityID) (\<lambda>(status, s1).
              Inr (status, st\<lparr> cs_set := s1, cs_components := comps \<rparr>)))"

definition ComponentStore_contains :: "('k, 'p) ComponentStore \<Rightarrow> jsval \<Rightarrow> error + bool" where
  "ComponentStore_contains st entityID = SparseSet_contains (cs_set st) entityID"

definition ComponentStore_len :: "('k, 'p) ComponentStore \<Rightarrow> int" where
  "ComponentStore_len st = SparseSet_len (cs_set st)"

definition ComponentStore_data :: "('k, 'p) ComponentStore \<Rightarrow> jsval list" where
  "ComponentStore_data st = SparseSet_data (cs_set st)"

definition raw :: "('k, 'p) ComponentStore \<Rightarrow> error + 'p option list \<times> int" where
  "raw st =
     (if isEmptyComp st then Inl NotForEmpty
      else Inr (cs_components st, SparseSet_len (cs_set st)))"

definition ComponentStore_get :: "('k, 'p) ComponentStore \<Rightarrow> jsval \<Rightarrow> error + 'p option" where
  "ComponentStore_get st entityID =
     (if isEmptyComp st then Inl NotForEmpty
      else
        ebind (SparseSet_index (cs_set st) entityID) (\<lambda>idx.
          if idx = FAILED_OPERATION then Inl ComponentDoesNotExist
          else Inr (comp_get (cs_components st) idx)))"

text \<open>The copy made by \<open>getConst\<close> and \<open>tryGetConst\<close>: an independent object equal to the
  payload; \<open>Object.getPrototypeOf\<close> throws a TypeError on \<open>null\<close> and \<open>undefined\<close>.\<close>

definition clone :: "'p option \<Rightarrow> error + 'p option" where
  "clone c = (case c of None \<Rightarrow> Inl TypeError | Some p \<Rightarrow> Inr (Some p))"

definition ComponentStore_getConst :: "('k, 'p) ComponentStore \<Rightarrow> jsval \<Rightarrow> error + 'p option" where
  "ComponentStore_getConst st entityID =
     (if isEmptyComp st then Inl NotForEmpty
      else
        ebind (SparseSet_index (cs_set st) entityID) (\<lambda>idx.
          if idx = FAILED_OPERATION then Inl ComponentDoesNotExist
          else clone (comp_get (cs_components st) idx)))"

definition ComponentStore_tryGet :: "('k, 'p) ComponentStore \<Rightarrow> jsval \<Rightarrow> error + 'p option" where
  "ComponentStore_tryGet st entityID =
     (if isEmptyComp st then Inl NotForEmpty
      else
        ebind (SparseSet_index (cs_set st) entityID) (\<lambda>idx.
          if idx = FAILED_OPERATION then Inr None
          else Inr (comp_get (cs_components st) idx)))"

definition ComponentStore_tryGetConst :: "('k, 'p) ComponentStore \<Rightarrow> jsval \<Rightarrow> error + 'p option" where
  "ComponentStore_tryGetConst st entityID =
     (if isEmptyComp st then Inl NotForEmpty
      else
        ebind (SparseSet_index (cs_set st) entityID) (\<lambda>idx.
          if idx = FAILED_OPERATION then Inr None
          else clone (comp_get (cs_components st) idx)))"

definition ComponentStore_swap ::
    "('k, 'p) ComponentStore \<Rightarrow> jsval \<Rightarrow> jsval \<Rightarrow> bool \<Rightarrow> error + int \<times> ('k, 'p) ComponentStore" where
  "ComponentStore_swap st ent1 ent2 insatancesOnly =
     (if ent1 = ent2 then Inr (FAILED_OPERATION, st)
      else
        ebind (SparseSet_index (cs_set st) ent1) (\<lambda>idx1.
          ebind (SparseSet_index (cs_set st) ent2) (\<lambda>idx2.
            if idx1 = FAILED_OPERATION \<or> idx2 = FAILED_OPERATION then Inr (FAILED_OPERATION, st)
            else
              let comps =
                    (if \<not> isEmptyComp st
                     then comp_set (comp_set (cs_components st) idx1 (comp_get (cs_components st) idx2))
                            idx2 (comp_get (cs_components st) idx1)
                     else cs_components st);
                  st1 = st\<lparr> cs_components := comps \<rparr>
              in if \<not> insatancesOnly
                 then ebind (SparseSet_swap (cs_set st1) ent1 ent2) (\<lambda>(status, s1).
                        if status = FAILED_OPERATION
                        then Inr (FAILED_OPERATION, st1\<lparr> cs_set := s1 \<rparr>)
                        else Inr (SUCCESS_OPERATION, st1\<lparr> cs_set := s1 \<rparr>))
                 else Inr (SUCCESS_OPERATION, st1))))"

definition sortEmpty ::
    "('k, 'p) ComponentStore \<Rightarrow> (jsval \<Rightarrow> jsval \<Rightarrow> int) \<Rightarrow> error + int \<times> ('k, 'p) ComponentStore" where
  "sortEmpty st comparatorFunc =
     (if \<not> isEmptyComp st then Inl OnlyForEmpty
      else ebind (SparseSet_sort (cs_set st) comparatorFunc) (\<lambda>(status, s1).
             Inr (status, st\<lparr> cs_set := s1 \<rparr>)))"

text \<open>
  The two loops of \<open>sortBasedComponent\<close>. The inner loop moves the payload at \<open>j\<close> down
  while the comparator puts it before its left neighbour, swapping the payloads and
  calling the sparse set's \<open>swap\<close> on the two entities (its status is not looked at).
  The outer loop runs \<open>i\<close> from 1 while \<open>i < len()\<close>; \<open>n\<close> counts the iterations left,
  \<open>len()\<close> being unchanged by \<open>swap\<close>.
\<close>

fun sort_inner ::
    "('p option \<Rightarrow> 'p option \<Rightarrow> int) \<Rightarrow> ('k, 'p) ComponentStore \<Rightarrow> nat
      \<Rightarrow> error + ('k, 'p) ComponentStore" where
  "sort_inner comparatorFunc st 0 = Inr st"
| "sort_inner comparatorFunc st (Suc j) =
     (if comparatorFunc (comp_get (cs_components st) (int (Suc j)))
                        (comp_get (cs_components st) (int j)) < 0
      then
        let temp = comp_get (cs_components st) (int (Suc j));
            c1 = comp_set (cs_components st) (int (Suc j)) (comp_get (cs_components st) (int j));
            c2 = comp_set c1 (int j) temp
        in ebind (SparseSet_swap (cs_set st)
                    (array_get (dense (cs_set st)) (int (Suc j)))
                    (array_get (dense (cs_set st)) (int j))) (\<lambda>(_, s1).
             sort_inner comparatorFunc (st\<lparr> cs_set := s1, cs_components := c2 \<rparr>) j)
      else Inr st)"

fun sort_outer ::
    "('p option \<Rightarrow> 'p option \<Rightarrow> int) \<Rightarrow> ('k, 'p) ComponentStore \<Rightarrow> nat \<Rightarrow> nat
      \<Rightarrow> error + ('k, 'p) ComponentStore" where
  "sort_outer comparatorFunc st i 0 = Inr st"
| "sort_outer comparatorFunc st i (Suc n) =
     ebind (sort_inner comparatorFunc st i) (\<lambda>st1. sort_outer comparatorFunc st1 (Suc i) n)"

definition sortBasedComponent ::
    "('k, 'p) ComponentStore \<Rightarrow> ('p option \<Rightarrow> 'p option \<Rightarrow> int)
      \<Rightarrow> error + int \<times> ('k, 'p) ComponentStore" where
  "sortBasedComponent st comparatorFunc =
     (if isEmptyComp st then Inl NotForEmpty
      else if ComponentStore_len st \<le> 1 then Inr (FAILED_OPERATION, st)
      else
        ebind (sort_outer comparatorFunc st 1 (nat (ComponentStore_len st) - 1)) (\<lambda>st1.
          Inr (SUCCESS_OPERATION, st1)))"

section \<open>The invariants of a component store\<close>

text \<open>A component store: the invariants of its sparse set and, for a standard store, a
  payload cell for every live position.\<close>

definition ComponentStore_inv :: "('k, 'p) ComponentStore \<Rightarrow> bool" where
  "ComponentStore_inv st \<longleftrightarrow>
     SparseSet_inv (cs_set st) \<and>
     (\<not> isEmptyComp st \<longrightarrow> slength (cs_set st) \<le> int (length (cs_components st)))"

section \<open>What sorting a component store is to achieve\<close>

text \<open>
  A comparator in the sense of \<open>Array.prototype.sort\<close> puts \<open>a\<close> before \<open>b\<close> when
  \<open>cmp(a, b) < 0\<close>. It is consistent when "before" is asymmetric and "not before" is
  transitive (a strict weak order).
\<close>

definition consistent_comparator :: "('a \<Rightarrow> 'a \<Rightarrow> int) \<Rightarrow> bool" where
  "consistent_comparator cmp \<longleftrightarrow>
     (\<forall>a b. cmp a b < 0 \<longrightarrow> \<not> cmp b a < 0) \<and>
     (\<forall>a b c. \<not> cmp b a < 0 \<and> \<not> cmp c b < 0 \<longrightarrow> \<not> cmp c a < 0)"

text \<open>The entity/payload pairs of a store, in dense order: \<open>(dense[i], components[i])\<close>
  for \<open>i < len()\<close>.\<close>

definition pairing :: "('k, 'p) ComponentStore \<Rightarrow> (jsval \<times> 'p option) list" where
  "pairing st =
     zip (take (nat (ComponentStore_len st)) (ComponentStore_data st))
         (take (nat (ComponentStore_len st)) (cs_components st))"


section \<open>Registry\<close>

record ComponentOptions =
  co_typedArray :: bool
  co_poolSize :: int
  co_pageSize :: int
  co_replace :: bool
  co_resize :: bool

record RegistryOptions =
  entityOptions :: EntityStoreOptions
  componentOptions :: ComponentOptions

definition DefaultComponentOptions :: ComponentOptions where
  "DefaultComponentOptions =
     \<lparr> co_typedArray = True, co_poolSize = 1024, co_pageSize = 4096, co_replace = True,
       co_resize = True \<rparr>"

definition DefaultRegistryOptions :: RegistryOptions where
  "DefaultRegistryOptions =
     \<lparr> entityOptions = DefaultEntityStoreOptions, componentOptions = DefaultComponentOptions \<rparr>"

definition SENTINEL :: int where
  "SENTINEL = -1"

text \<open>
  The registry's \<open>Map\<close> from component type to store is an association list in
  insertion order with one entry per key (\<open>AList.update\<close> replaces the value of a key
  in place and appends a new key, as \<open>Map.prototype.set\<close> does). A store is an object
  that its methods mutate in place; the model writes the new store back under its key.
\<close>

record ('k, 'p) Registry =
  r_entities :: EntityStore
  r_components :: "('k \<times> ('k, 'p) ComponentStore) list"
  r_config :: RegistryOptions

definition Registry_new :: "RegistryOptions \<Rightarrow> ('k, 'p) Registry" where
  "Registry_new config =
     \<lparr> r_entities = EntityStore_new (entityOptions config), r_components = [],
       r_config = config \<rparr>"

definition getCompConfig :: "RegistryOptions \<Rightarrow> SparseSetOptions" where
  "getCompConfig regConfig =
     \<lparr> opt_typedArray = co_typedArray (componentOptions regConfig),
       opt_poolSize = co_poolSize (componentOptions regConfig),
       opt_pageSize = co_pageSize (componentOptions regConfig),
       opt_entityHandler = opt_handler (entityOptions regConfig) \<rparr>"

definition put_store :: "('k, 'p) Registry \<Rightarrow> 'k \<Rightarrow> ('k, 'p) ComponentStore \<Rightarrow> ('k, 'p) Registry" where
  "put_store r compT st = r\<lparr> r_components := AList.update compT st (r_components r) \<rparr>"

definition prepare ::
    "('k, 'p) Registry \<Rightarrow> 'k \<Rightarrow> int \<Rightarrow> ComponentOptions
      \<Rightarrow> error + ('k, 'p) ComponentStore \<times> ('k, 'p) Registry" where
  "prepare r compT CType config =
     (case map_of (r_components r) compT of
        Some compStore \<Rightarrow> Inr (compStore, r)
      | None \<Rightarrow>
          ebind (ComponentStore_new compT CType
                   (getCompConfig \<lparr> entityOptions = entityOptions (r_config r),
                                    componentOptions = config \<rparr>)) (\<lambda>compStore.
            Inr (compStore, put_store r compT compStore)))"

definition Registry_len :: "('k, 'p) Registry \<Rightarrow> 'k \<Rightarrow> int" where
  "Registry_len r compT =
     (case map_of (r_components r) compT of
        Some compStore \<Rightarrow> ComponentStore_len compStore
      | None \<Rightarrow> SENTINEL)"

definition valid :: "('k, 'p) Registry \<Rightarrow> jsval \<Rightarrow> error + bool" where
  "valid r entity = EntityStore_isAlive (r_entities r) entity"

definition Registry_create :: "('k, 'p) Registry \<Rightarrow> error + jsval \<times> ('k, 'p) Registry" where
  "Registry_create r =
     ebind (EntityStore_create (r_entities r)) (\<lambda>(e, es). Inr (e, r\<lparr> r_entities := es \<rparr>))"

text \<open>The loop of \<open>removeAll\<close> over the stores, in the order of the map.\<close>

fun removeAll_loop ::
    "('k \<times> ('k, 'p) ComponentStore) list \<Rightarrow> jsval
      \<Rightarrow> error + ('k \<times> ('k, 'p) ComponentStore) list" where
  "removeAll_loop [] entity = Inr []"
| "removeAll_loop ((k, compStore) # rest) entity =
     ebind (ComponentStore_contains compStore entity) (\<lambda>c.
       ebind (if \<not> c then Inr compStore
              else ebind (ComponentStore_remove compStore entity) (\<lambda>(_, st). Inr st)) (\<lambda>st.
         ebind (removeAll_loop rest entity) (\<lambda>rest'. Inr ((k, st) # rest'))))"

definition removeAll :: "('k, 'p) Registry \<Rightarrow> jsval \<Rightarrow> error + ('k, 'p) Registry" where
  "removeAll r entity =
     ebind (EntityStore_isAlive (r_entities r) entity) (\<lambda>alive.
       if \<not> alive then Inl EntityDoesNotExist
       else ebind (removeAll_loop (r_components r) entity) (\<lambda>cs.
              Inr (r\<lparr> r_components := cs \<rparr>)))"

definition destroy :: "('k, 'p) Registry \<Rightarrow> jsval \<Rightarrow> error + ('k, 'p) Registry" where
  "destroy r entity =
     ebind (valid r entity) (\<lambda>v.
       if \<not> v then Inr r
       else
         ebind (removeAll r entity) (\<lambda>r1.
           ebind (EntityStore_remove (r_entities r1) entity) (\<lambda>es.
             Inr (r1\<lparr> r_entities := es \<rparr>))))"

definition Registry_add ::
    "('k \<Rightarrow> 'a \<Rightarrow> 'p) \<Rightarrow> ('k, 'p) Registry \<Rightarrow> jsval \<Rightarrow> 'k \<Rightarrow> int \<Rightarrow> 'a \<Rightarrow> ComponentOptions
      \<Rightarrow> error + int \<times> ('k, 'p) Registry" where
  "Registry_add construct r entity compT CType args config =
     ebind (EntityStore_isAlive (r_entities r) entity) (\<lambda>alive.
       if \<not> alive then Inl EntityDoesNotExist
       else
         ebind (prepare r compT CType config) (\<lambda>(compStore, r1).
           ebind (ComponentStore_add construct compStore entity args
                    (co_replace config) (co_resize config)) (\<lambda>(status, st).
             Inr (status, put_store r1 compT st))))"

text \<open>An entry of \<open>addComps\<close> is a tuple (type, kind, arguments, options); \<open>None\<close> is an
  entry that is not an array.\<close>

fun addComps_loop ::
    "('k \<Rightarrow> 'a \<Rightarrow> 'p) \<Rightarrow> ('k, 'p) Registry \<Rightarrow> jsval
      \<Rightarrow> ('k \<times> int \<times> 'a \<times> ComponentOptions) option list \<Rightarrow> error + ('k, 'p) Registry" where
  "addComps_loop construct r entity [] = Inr r"
| "addComps_loop construct r entity (None # rest) = Inl BadComponentEntry"
| "addComps_loop construct r entity (Some (compT, CType, args, config) # rest) =
     ebind (Registry_add construct r entity compT CType args config) (\<lambda>(_, r1).
       addComps_loop construct r1 entity rest)"

definition addComps ::
    "('k \<Rightarrow> 'a \<Rightarrow> 'p) \<Rightarrow> ('k, 'p) Registry \<Rightarrow> jsval
      \<Rightarrow> ('k \<times> int \<times> 'a \<times> ComponentOptions) option list \<Rightarrow> error + ('k, 'p) Registry" where
  "addComps construct r entity comps =
     ebind (EntityStore_isAlive (r_entities r) entity) (\<lambda>alive.
       if \<not> alive then Inl EntityDoesNotExist
       else addComps_loop construct r entity comps)"

definition replace ::
    "('k \<Rightarrow> 'a \<Rightarrow> 'p) \<Rightarrow> ('k, 'p) Registry \<Rightarrow> jsval \<Rightarrow> 'k \<Rightarrow> 'a
      \<Rightarrow> error + int \<times> ('k, 'p) Registry" where
  "replace construct r entity compT args =
     ebind (EntityStore_isAlive (r_entities r) entity) (\<lambda>alive.
       if \<not> alive then Inl EntityDoesNotExist
       else
         case map_of (r_components r) compT of
           None \<Rightarrow> Inl NotRegistered
         | Some compStore \<Rightarrow>
             ebind (ComponentStore_contains compStore entity) (\<lambda>c.
               if \<not> c then Inl ComponentDoesNotExist
               else ebind (ComponentStore_add construct compStore entity args True True)
                      (\<lambda>(status, st). Inr (status, put_store r compT st))))"

definition fetchReplace ::
    "('k \<Rightarrow> 'a \<Rightarrow> 'p) \<Rightarrow> ('k, 'p) Registry \<Rightarrow> jsval \<Rightarrow> 'k \<Rightarrow> 'a
      \<Rightarrow> error + 'p option \<times> ('k, 'p) Registry" where
  "fetchReplace construct r entity compT args =
     ebind (EntityStore_isAlive (r_entities r) entity) (\<lambda>alive.
       if \<not> alive then Inl EntityDoesNotExist
       else
         case map_of (r_components r) compT of
           None \<Rightarrow> Inl NotRegistered
         | Some compStore \<Rightarrow>
             ebind (ComponentStore_contains compStore entity) (\<lambda>c.
               if \<not> c then Inl ComponentDoesNotExist
               else
                 ebind (ComponentStore_get compStore entity) (\<lambda>oldComp.
                   ebind (ComponentStore_add construct compStore entity args True True)
                     (\<lambda>(_, st). Inr (oldComp, put_store r compT st)))))"

definition Registry_remove ::
    "('k, 'p) Registry \<Rightarrow> jsval \<Rightarrow> 'k \<Rightarrow> error + int \<times> ('k, 'p) Registry" where
  "Registry_remove r entity compT =
     ebind (EntityStore_isAlive (r_entities r) entity) (\<lambda>alive.
       if \<not> alive then Inl EntityDoesNotExist
       else
         case map_of (r_components r) compT of
           None \<Rightarrow> Inl NotRegistered
         | Some compStore \<Rightarrow>
             ebind (ComponentStore_remove compStore entity) (\<lambda>(status, st).
               Inr (status, put_store r compT st)))"

definition removeIfExist ::
    "('k, 'p) Registry \<Rightarrow> jsval \<Rightarrow> 'k \<Rightarrow> error + int \<times> ('k, 'p) Registry" where
  "removeIfExist r entity compT =
     ebind (EntityStore_isAlive (r_entities r) entity) (\<lambda>alive.
       if \<not> alive then Inl EntityDoesNotExist
       else
         case map_of (r_components r) compT of
           None \<Rightarrow> Inr (SENTINEL, r)
         | Some compStore \<Rightarrow>
             ebind (ComponentStore_contains compStore entity) (\<lambda>c.
               if \<not> c then Inr (SENTINEL, r)
               else ebind (ComponentStore_remove compStore entity) (\<lambda>(status, st).
                      Inr (status, put_store r compT st))))"

definition has :: "('k, 'p) Registry \<Rightarrow> jsval \<Rightarrow> 'k \<Rightarrow> error + bool" where
  "has r entity compT =
     ebind (EntityStore_isAlive (r_entities r) entity) (\<lambda>alive.
       if \<not> alive then Inl EntityDoesNotExist
       else
         case map_of (r_components r) compT of
           None \<Rightarrow> Inl NotRegistered
         | Some compStore \<Rightarrow> ComponentStore_contains compStore entity)"

definition Registry_get :: "('k, 'p) Registry \<Rightarrow> jsval \<Rightarrow> 'k \<Rightarrow> error + 'p option" where
  "Registry_get r entity compT =
     ebind (EntityStore_isAlive (r_entities r) entity) (\<lambda>alive.
       if \<not> alive then Inl EntityDoesNotExist
       else
         case map_of (r_components r) compT of
           None \<Rightarrow> Inl NotRegistered
         | Some compStore \<Rightarrow> ComponentStore_get compStore entity)"

definition Registry_getConst :: "('k, 'p) Registry \<Rightarrow> jsval \<Rightarrow> 'k \<Rightarrow> error + 'p option" where
  "Registry_getConst r entity compT =
     ebind (EntityStore_isAlive (r_entities r) entity) (\<lambda>alive.
       if \<not> alive then Inl EntityDoesNotExist
       else
         case map_of (r_components r) compT of
           None \<Rightarrow> Inl NotRegistered
         | Some compStore \<Rightarrow> ComponentStore_getConst compStore entity)"

definition Registry_tryGet :: "('k, 'p) Registry \<Rightarrow> jsval \<Rightarrow> 'k \<Rightarrow> error + 'p option" where
  "Registry_tryGet r entity compT =
     (case map_of (r_components r) compT of
        None \<Rightarrow> Inl NotRegistered
      | Some compStore \<Rightarrow> ComponentStore_tryGet compStore entity)"

definition Registry_tryGetConst :: "('k, 'p) Registry \<Rightarrow> jsval \<Rightarrow> 'k \<Rightarrow> error + 'p option" where
  "Registry_tryGetConst r entity compT =
     (case map_of (r_components r) compT of
        None \<Rightarrow> Inl NotRegistered
      | Some compStore \<Rightarrow> ComponentStore_tryGetConst compStore entity)"

definition Registry_sort ::
    "('k, 'p) Registry \<Rightarrow> 'k \<Rightarrow> ('p option \<Rightarrow> 'p option \<Rightarrow> int)
      \<Rightarrow> error + int \<times> ('k, 'p) Registry" where
  "Registry_sort r compT comparatorFunc =
     (case map_of (r_components r) compT of
        None \<Rightarrow> Inl NotRegistered
      | Some compStore \<Rightarrow>
          ebind (sortBasedComponent compStore comparatorFunc) (\<lambda>(status, st).
            Inr (status, put_store r compT st)))"

section \<open>Invariants of a registry\<close>

text \<open>
  A codec that the factory made, with fields of at most 53 bits (the fields that a
  JavaScript Number holds exactly).
\<close>

definition handle_ok :: "handle \<Rightarrow> bool" where
  "handle_ok h \<longleftrightarrow>
     EntityHandleFactory (int (indexBits h)) (int (versionBits h)) = Inr h \<and>
     indexBits h \<le> 53 \<and> versionBits h \<le> 53"

text \<open>
  The registry's entity store uses such a codec and has not allocated more slots than its
  array holds; every component store satisfies its invariants and shares the codec of
  the entity store.
\<close>

definition Registry_inv :: "('k, 'p) Registry \<Rightarrow> bool" where
  "Registry_inv r \<longleftrightarrow>
     handle_ok (es_entityHandler (r_entities r)) \<and>
     append_index (r_entities r) \<le> int (length (es_entities (r_entities r))) \<and>
     (\<forall>(k, cs) \<in> set (r_components r).
        ComponentStore_inv cs \<and> entityHandler (cs_set cs) = es_entityHandler (r_entities r))"

text \<open>
  What \<open>destroy(e)\<close> promises about one entry of the component map: the key stays, the
  store does not contain \<open>e\<close> afterwards, its length went down by one if it contained \<open>e\<close>
  and it is unchanged otherwise.
\<close>

definition purged :: "jsval \<Rightarrow> 'k \<times> ('k, 'p) ComponentStore \<Rightarrow> 'k \<times> ('k, 'p) ComponentStore \<Rightarrow> bool" where
  "purged e before after \<longleftrightarrow>
     fst after = fst before \<and>
     ComponentStore_contains (snd after) e = Inr False \<and>
     (if ComponentStore_contains (snd before) e = Inr True
      then ComponentStore_len (snd after) = ComponentStore_len (snd before) - 1
      else snd after = snd before)"


section \<open>Scenarios\<close>

text \<open>A small registry configuration: the Medium codec (20/12), four entity slots,
  typed arrays, a pool of four components, pages of 128 cells.\<close>

definition small_options :: RegistryOptions where
  "small_options =
     \<lparr> entityOptions = \<lparr> opt_handler = EntityHandleMedium, opt_capacity = 4,
                         opt_resizable = True, opt_isTyped = True \<rparr>,
       componentOptions = \<lparr> co_typedArray = True, co_poolSize = 4, co_pageSize = 128,
                            co_replace = True, co_resize = True \<rparr> \<rparr>"

text \<open>A component type is a number and its constructor keeps its argument as the payload.\<close>

definition payload_of :: "nat \<Rightarrow> int \<Rightarrow> int" where
  "payload_of k x = x"

text \<open>
  A stale handle: \<open>e1 = create()\<close>, \<open>add(e1, T, [10])\<close>, \<open>destroy(e1)\<close>, \<open>e2 = create()\<close>
  (the slot of \<open>e1\<close>, next version), \<open>add(e2, T, [20])\<close>.
\<close>

definition stale_handle_scenario :: "error + jsval \<times> jsval \<times> (nat, int) Registry" where
  "stale_handle_scenario =
     ebind (Registry_create (Registry_new small_options)) (\<lambda>(e1, r1).
       ebind (Registry_add payload_of r1 e1 0 ComponentStandard 10
                (componentOptions small_options)) (\<lambda>(_, r2).
         ebind (destroy r2 e1) (\<lambda>r3.
           ebind (Registry_create r3) (\<lambda>(e2, r4).
             ebind (Registry_add payload_of r4 e2 0 ComponentStandard 20
                      (componentOptions small_options)) (\<lambda>(_, r5).
               Inr (e1, e2, r5))))))"

text \<open>A tag component (spec scenario S3): \<open>A = create()\<close>, \<open>B = create()\<close>, then
  \<open>add(A, T)\<close> and \<open>add(B, T)\<close> with \<open>T\<close> registered as an empty component.\<close>

definition tag_scenario :: "error + jsval \<times> jsval \<times> (nat, int) Registry" where
  "tag_scenario =
     ebind (Registry_create (Registry_new small_options)) (\<lambda>(a, r1).
       ebind (Registry_create r1) (\<lambda>(b, r2).
         ebind (Registry_add payload_of r2 a 0 ComponentEmpty 0
                  (componentOptions small_options)) (\<lambda>(_, r3).
           ebind (Registry_add payload_of r3 b 0 ComponentEmpty 0
                    (componentOptions small_options)) (\<lambda>(_, r4).
             Inr (a, b, r4)))))"

text \<open>A sparse set with a typed dense array of capacity four, pages of 128 cells and the
  Medium codec.\<close>

definition small_set_options :: SparseSetOptions where
  "small_set_options =
     \<lparr> opt_typedArray = True, opt_poolSize = 4, opt_pageSize = 128,
       opt_entityHandler = EntityHandleMedium \<rparr>"

text \<open>
  A stale sparse cell: \<open>add(e1)\<close>, \<open>add(e2)\<close>, \<open>reset()\<close>, \<open>add(e1)\<close>, with \<open>e1\<close> and \<open>e2\<close>
  the handles of slots 1 and 2 (ids 4096 and 8192). After \<open>reset\<close> the cell of \<open>e2\<close>
  still holds the dense index 1.
\<close>

definition stale_cell_scenario :: "error + SparseSet" where
  "stale_cell_scenario =
     ebind (SparseSet_new small_set_options) (\<lambda>s0.
       ebind (SparseSet_add s0 (Num 4096) False) (\<lambda>(_, s1).
         ebind (SparseSet_add s1 (Num 8192) False) (\<lambda>(_, s2).
           ebind (SparseSet_add (reset s2) (Num 4096) False) (\<lambda>(_, s3). Inr s3))))"

text \<open>Two entities in a dense array of capacity four: \<open>add(e2)\<close>, \<open>add(e1)\<close>.\<close>

definition unsorted_scenario :: "error + SparseSet" where
  "unsorted_scenario =
     ebind (SparseSet_new small_set_options) (\<lambda>s0.
       ebind (SparseSet_add s0 (Num 8192) False) (\<lambda>(_, s1).
         ebind (SparseSet_add s1 (Num 4096) False) (\<lambda>(_, s2). Inr s2)))"

text \<open>The comparator \<open>(a, b) => a - b\<close> on entity ids that are Numbers.\<close>

fun numeric_cmp :: "jsval \<Rightarrow> jsval \<Rightarrow> int" where
  "numeric_cmp (Num a) (Num b) = a - b"
| "numeric_cmp a b = 0"

text \<open>An entity store for two entities that may not grow.\<close>

definition fixed_store_options :: EntityStoreOptions where
  "fixed_store_options =
     \<lparr> opt_handler = EntityHandleMedium, opt_capacity = 2, opt_resizable = False,
       opt_isTyped = True \<rparr>"

text \<open>An entity store with the Small codec (12/4): versions run from 0 to 15.\<close>

definition small_codec_options :: EntityStoreOptions where
  "small_codec_options =
     \<lparr> opt_handler = EntityHandleSmall, opt_capacity = 4, opt_resizable = True,
       opt_isTyped = True \<rparr>"

text \<open>The store with the Small codec after three calls of \<open>create()\<close>.\<close>

definition three_entities_store :: EntityStore where
  "three_entities_store =
     \<lparr> es_entities = [Num 0, Num 16, Num 32, Num 0],
       es_entityHandler = EntityHandleSmall,
       append_index = 3,
       free_slot = -1,
       INVALID_IDX = Num 4095,
       cap = 4,
       isTypedArray = True,
       resizable = True \<rparr>"

text \<open>
  The store with the Small codec after fifteen rounds of \<open>create()\<close> and \<open>remove\<close> and a
  sixteenth \<open>create()\<close>: slot 0 holds the live handle 15 (version 15). Then the store
  after \<open>remove(15)\<close>, and after one more \<open>create()\<close>.
\<close>

definition worn_store :: EntityStore where
  "worn_store =
     \<lparr> es_entities = [Num 15, Num 0, Num 0, Num 0],
       es_entityHandler = EntityHandleSmall,
       append_index = 1,
       free_slot = 4095,
       INVALID_IDX = Num 4095,
       cap = 4,
       isTypedArray = True,
       resizable = True \<rparr>"

definition worn_store_removed :: EntityStore where
  "worn_store_removed = worn_store\<lparr> es_entities := [Num 65520, Num 0, Num 0, Num 0], free_slot := 0 \<rparr>"

definition worn_store_recreated :: EntityStore where
  "worn_store_recreated = worn_store\<lparr> es_entities := [Num 0, Num 0, Num 0, Num 0], free_slot := 4095 \<rparr>"

text \<open>
  Spec scenario S2: a standard component store to which the entities \<open>A\<close>, \<open>B\<close> and \<open>D\<close>
  (the handles of slots 0, 1 and 2: ids 0, 4096 and 8192) are added with the payloads
  1, 2 and 3, and the store that results.
\<close>

definition abd_scenario :: "error + (nat, int) ComponentStore" where
  "abd_scenario =
     ebind (ComponentStore_new 0 ComponentStandard small_set_options) (\<lambda>st0.
       ebind (ComponentStore_add payload_of st0 (Num 0) 1 True True) (\<lambda>(_, st1).
         ebind (ComponentStore_add payload_of st1 (Num 4096) 2 True True) (\<lambda>(_, st2).
           ebind (ComponentStore_add payload_of st2 (Num 8192) 3 True True) (\<lambda>(_, st3).
             Inr st3))))"

definition abd_set :: SparseSet where
  "abd_set =
     \<lparr> pageSize = 128,
       sparse = [0 \<mapsto> [0 \<mapsto> 0, 1 \<mapsto> 1, 2 \<mapsto> 2]],
       dense = [Num 0, Num 4096, Num 8192, Num 0],
       slength = 3,
       typedArray = True,
       entityHandler = EntityHandleMedium \<rparr>"

definition abd_store :: "(nat, int) ComponentStore" where
  "abd_store =
     \<lparr> cs_set = abd_set,
       cs_components = [Some 1, Some 2, Some 3, None],
       compConstructor = 0,
       isEmptyComp = False \<rparr>"

text \<open>
  Three entities \<open>A\<close>, \<open>B\<close>, \<open>D\<close> created in a small registry; component 0 is added to all
  three (payloads 1, 2, 3) and component 1 to \<open>B\<close> alone (payload 20). The two stores that
  result are the store of scenario S2 and a store that holds \<open>B\<close> only.
\<close>

definition b_set :: SparseSet where
  "b_set =
     \<lparr> pageSize = 128,
       sparse = [0 \<mapsto> [1 \<mapsto> 0]],
       dense = [Num 4096, Num 0, Num 0, Num 0],
       slength = 1,
       typedArray = True,
       entityHandler = EntityHandleMedium \<rparr>"

definition b_store :: "(nat, int) ComponentStore" where
  "b_store =
     \<lparr> cs_set = b_set,
       cs_components = [Some 20, None, None, None],
       compConstructor = 1,
       isEmptyComp = False \<rparr>"

definition purge_scenario :: "error + (nat, int) Registry" where
  "purge_scenario =
     ebind (Registry_create (Registry_new small_options)) (\<lambda>(a, r1).
       ebind (Registry_create r1) (\<lambda>(b, r2).
         ebind (Registry_create r2) (\<lambda>(d, r3).
           ebind (Registry_add payload_of r3 a 0 ComponentStandard 1
                    (componentOptions small_options)) (\<lambda>(_, r4).
             ebind (Registry_add payload_of r4 b 0 ComponentStandard 2
                      (componentOptions small_options)) (\<lambda>(_, r5).
               ebind (Registry_add payload_of r5 d 0 ComponentStandard 3
                        (componentOptions small_options)) (\<lambda>(_, r6).
                 ebind (Registry_add payload_of r6 b 1 ComponentStandard 20
                          (componentOptions small_options)) (\<lambda>(_, r7).
                   Inr r7)))))))"


text \<open>
  A store with the Small codec on which one slot has been recycled: \<open>e0 = create()\<close>,
  \<open>remove(e0)\<close>, \<open>e1 = create()\<close>. The scenario returns \<open>e1\<close> and the store.
\<close>

definition recycled_once_scenario :: "error + jsval \<times> EntityStore" where
  "recycled_once_scenario =
     ebind (EntityStore_create (EntityStore_new small_codec_options)) (\<lambda>(e0, st1).
       ebind (EntityStore_remove st1 e0) (\<lambda>st2. EntityStore_create st2))"

text \<open>The codec \<open>EntityHandleFactory(4, 28)\<close>, a Number codec of 32 bits, and a typed store
  of capacity 16 with it.\<close>

definition narrow_codec :: handle where
  "narrow_codec = \<lparr> indexBits = 4, versionBits = 28, totalBits = 32, etype = Number \<rparr>"

definition narrow_codec_options :: EntityStoreOptions where
  "narrow_codec_options =
     \<lparr> opt_handler = narrow_codec, opt_capacity = 16, opt_resizable = True,
       opt_isTyped = True \<rparr>"

text \<open>
  Spec scenario S5: a standard component store to which \<open>A\<close>, \<open>B\<close> and \<open>D\<close> are added with
  the payloads 3, 1 and 2, and the store that results; the comparator
  \<open>(a, b) => a.k - b.k\<close> on payloads (an empty payload cell counts as 0).
\<close>

definition kbd_scenario :: "error + (nat, int) ComponentStore" where
  "kbd_scenario =
     ebind (ComponentStore_new 0 ComponentStandard small_set_options) (\<lambda>st0.
       ebind (ComponentStore_add payload_of st0 (Num 0) 3 True True) (\<lambda>(_, st1).
         ebind (ComponentStore_add payload_of st1 (Num 4096) 1 True True) (\<lambda>(_, st2).
           ebind (ComponentStore_add payload_of st2 (Num 8192) 2 True True) (\<lambda>(_, st3).
             Inr st3))))"

definition kbd_store :: "(nat, int) ComponentStore" where
  "kbd_store = abd_store\<lparr> cs_components := [Some 3, Some 1, Some 2, None] \<rparr>"

fun payload_value :: "int option \<Rightarrow> int" where
  "payload_value None = 0"
| "payload_value (Some x) = x"

definition payload_cmp :: "int option \<Rightarrow> int option \<Rightarrow> int" where
  "payload_cmp a b = payload_value a - payload_value b"

text \<open>A comparator that is not consistent: it puts 3 before 1 and nothing else before
  anything, \<open>(a, b) => (a.k === 3 && b.k === 1) ? -1 : 1\<close>.\<close>

definition odd_comparator :: "int option \<Rightarrow> int option \<Rightarrow> int" where
  "odd_comparator a b = (if a = Some 3 \<and> b = Some 1 then -1 else 1)"

section \<open>Properties of the handle codec\<close>

lemma handle_make_Num [simp]: "handle_make h (Num i) (Num v) = Inr (make_fields h i v)"
  by (cases "etype h") (simp_all add: handle_make_def ebind_def)

lemma pow2_mono: "k \<le> n \<Longrightarrow> (2::int) ^ k \<le> 2 ^ n"
  by (rule power_increasing) simp_all

lemma mask_lt_2p31: "n \<le> 31 \<Longrightarrow> (mask n :: int) < 2 ^ 31"
proof -
  assume "n \<le> 31"
  then have "(2::int) ^ n \<le> 2 ^ 31" by (intro power_increasing) auto
  then show ?thesis by (simp add: mask_eq_exp_minus_1)
qed

lemma toInt32_id: "- (2 ^ 31) \<le> x \<Longrightarrow> x < 2 ^ 31 \<Longrightarrow> toInt32 x = x"
  unfolding toInt32_def by (rule signed_take_bit_int_eq_self)

lemma toInt32_mask: "n \<le> 31 \<Longrightarrow> toInt32 (mask n) = mask n"
  using mask_lt_2p31[of n]
  by (intro toInt32_id) (auto intro: order_trans[of _ 0])

lemma toInt32_and_mask: "n \<le> 32 \<Longrightarrow> toInt32 a AND mask n = take_bit n a"
  unfolding toInt32_def
  by (simp flip: take_bit_eq_mask add: take_bit_signed_take_bit)

lemma numMask_31: "toInt32 (numMask 31) = mask 31"
  by (simp add: numMask_def js_shl_def toInt32_def mask_eq_exp_minus_1)

lemma toInt32_numMask: "1 \<le> n \<Longrightarrow> n \<le> 31 \<Longrightarrow> toInt32 (numMask n) = mask n"
proof (cases "n = 31")
  case True
  then show ?thesis by (simp only: numMask_31)
next
  case False
  assume "1 \<le> n" "n \<le> 31"
  with False have n: "n \<le> 30" by simp
  then have "(2::int) ^ n \<le> 2 ^ 30" by (intro power_increasing) auto
  then have lt: "(2::int) ^ n < 2 ^ 31" by simp
  have "(0::int) \<le> 2 ^ n" by simp
  then have ge: "- (2 ^ 31) \<le> (2::int) ^ n" by (rule order_trans[rotated]) simp
  have p: "toInt32 (2 ^ n) = 2 ^ n" using ge lt by (rule toInt32_id)
  have "numMask n = mask n"
    using n p by (simp add: numMask_def js_shl_def push_bit_eq_mult mask_eq_exp_minus_1 toInt32_id)
  then show ?thesis using n by (simp add: toInt32_mask)
qed

lemma js_and_numMask:
  "1 \<le> n \<Longrightarrow> n \<le> 31 \<Longrightarrow> js_and a (numMask n) = take_bit n a"
  by (simp add: js_and_def toInt32_numMask toInt32_and_mask)

lemma bigMask_eq: "bigMask n = mask n"
  by (simp add: bigMask_def mask_eq_exp_minus_1)

lemma take_bit_32_make:
  assumes "1 \<le> ib" "1 \<le> vb" "ib + vb \<le> 32"
  shows "take_bit 32 (js_or (js_shl (js_and i (numMask ib)) vb) (js_and v (numMask vb)))
         = push_bit vb (take_bit ib i) OR take_bit vb v"
proof -
  have ib: "ib \<le> 31" and vb: "vb \<le> 31" using assms by auto
  have "take_bit 32 (push_bit vb (take_bit ib i) OR take_bit vb v :: int) = push_bit vb (take_bit ib i) OR take_bit vb v"
    using assms
    by (auto simp add: bit_eq_iff bit_simps)
  then show ?thesis
    using ib vb assms
    by (simp add: js_and_numMask js_or_def js_shl_def toInt32_def take_bit_signed_take_bit
        take_bit_push_bit)
qed

lemma drop_push_or:
  "drop_bit vb (push_bit vb a OR take_bit vb (v::int)) = a"
  by (auto simp add: bit_eq_iff bit_simps)

lemma take_push_or:
  "take_bit vb (push_bit vb a OR take_bit vb (v::int)) = take_bit vb v"
  by (auto simp add: bit_eq_iff bit_simps)


lemma number_index_make:
  assumes "etype h = Number" "1 \<le> indexBits h" "1 \<le> versionBits h" "indexBits h + versionBits h \<le> 32"
  shows "handle_index h (make_fields h i v) = Inr (take_bit (indexBits h) i)"
proof -
  let ?ib = "indexBits h" and ?vb = "versionBits h"
  let ?m = "js_or (js_shl (js_and i (numMask ?ib)) ?vb) (js_and v (numMask ?vb))"
  have ib: "?ib \<le> 31" and vb: "?vb \<le> 31" and vbm: "?vb mod 32 = ?vb" using assms by auto
  have "js_and (js_shr_u ?m ?vb) (numMask ?ib) = take_bit ?ib (drop_bit ?vb (take_bit 32 ?m))"
    using assms ib by (simp add: js_and_numMask js_shr_u_def toUint32_def vbm)
  also have "\<dots> = take_bit ?ib (take_bit ?ib i)"
    using assms by (simp only: take_bit_32_make drop_push_or)
  finally have "js_and (js_shr_u ?m ?vb) (numMask ?ib) = take_bit ?ib i" by simp
  then show ?thesis
    using assms by (simp add: handle_index_def make_fields_def)
qed

lemma number_version_make:
  assumes "etype h = Number" "1 \<le> indexBits h" "1 \<le> versionBits h" "indexBits h + versionBits h \<le> 32"
  shows "handle_version h (make_fields h i v) = Inr (take_bit (versionBits h) v)"
proof -
  let ?ib = "indexBits h" and ?vb = "versionBits h"
  let ?m = "js_or (js_shl (js_and i (numMask ?ib)) ?vb) (js_and v (numMask ?vb))"
  have ib: "?ib \<le> 31" and vb: "?vb \<le> 31" using assms by auto
  have "js_and ?m (numMask ?vb) = take_bit ?vb ?m"
    using assms vb by (simp add: js_and_numMask)
  also have "\<dots> = take_bit ?vb (take_bit 32 ?m)"
    using vb by (simp add: min_def)
  also have "\<dots> = take_bit ?vb v"
    using assms by (simp only: take_bit_32_make take_push_or)
  finally show ?thesis
    using assms by (simp add: handle_version_def make_fields_def)
qed

lemma big_index_make:
  assumes "etype h = BigInt"
  shows "handle_index h (make_fields h i v) = Inr (toNumber (take_bit (indexBits h) i))"
proof -
  let ?ib = "indexBits h" and ?vb = "versionBits h"
  have "drop_bit ?vb (push_bit ?vb (i AND bigMask ?ib) OR (v AND bigMask ?vb)) AND bigMask ?ib
        = take_bit ?ib (drop_bit ?vb (push_bit ?vb (take_bit ?ib i) OR take_bit ?vb v))"
    by (simp only: bigMask_eq take_bit_eq_mask)
  also have "\<dots> = take_bit ?ib i"
    by (simp only: drop_push_or take_bit_take_bit min.idem)
  finally show ?thesis
    using assms by (simp add: handle_index_def make_fields_def)
qed

lemma big_version_make:
  assumes "etype h = BigInt"
  shows "handle_version h (make_fields h i v) = Inr (toNumber (take_bit (versionBits h) v))"
proof -
  let ?ib = "indexBits h" and ?vb = "versionBits h"
  have "(push_bit ?vb (i AND bigMask ?ib) OR (v AND bigMask ?vb)) AND bigMask ?vb
        = take_bit ?vb (push_bit ?vb (take_bit ?ib i) OR take_bit ?vb v)"
    by (simp only: bigMask_eq take_bit_eq_mask)
  also have "\<dots> = take_bit ?vb v"
    by (simp only: take_push_or)
  finally show ?thesis
    using assms by (simp add: handle_version_def make_fields_def)
qed

lemma bit_length_le: "n < 2 ^ k \<Longrightarrow> bit_length n \<le> k"
proof (induction k arbitrary: n)
  case 0
  then show ?case by simp
next
  case (Suc k)
  have "n div 2 < 2 ^ k" using Suc.prems by auto
  from Suc.IH[OF this] show ?case by (subst bit_length.simps) simp
qed

lemma toNumber_small: "\<bar>x\<bar> < 2 ^ 53 \<Longrightarrow> toNumber x = x"
proof -
  assume a: "\<bar>x\<bar> < 2 ^ 53"
  then have "nat \<bar>x\<bar> < 2 ^ 53" by (simp add: nat_less_iff)
  then have "bit_length (nat \<bar>x\<bar>) - 53 = 0" using bit_length_le[of "nat \<bar>x\<bar>" 53] by simp
  then show ?thesis by (simp add: toNumber_def Let_def del: bit_length.simps) (simp add: mult_sgn_abs)
qed

lemma toNumber_below: "0 \<le> x \<Longrightarrow> x < 2 ^ k \<Longrightarrow> k \<le> 53 \<Longrightarrow> toNumber x = x"
proof -
  assume x: "0 \<le> x" "x < 2 ^ k" and "k \<le> 53"
  then have "(2::int) ^ k \<le> 2 ^ 53" by (simp only: pow2_mono)
  with x have "\<bar>x\<bar> < 2 ^ 53" by linarith
  then show ?thesis by (rule toNumber_small)
qed

text \<open>The fields of an id made from two integers: decoding returns them masked to their
  widths, and in-range Numbers come back as they are.\<close>

lemma make_fields_roundtrip:
  assumes "0 < ib" and "0 < vb" and "ib + vb \<le> 64"
  shows "\<exists>h. EntityHandleFactory ib vb = Inr h \<and>
           (0 \<le> i \<and> i < 2 ^ indexBits h \<and> 0 \<le> v \<and> v < 2 ^ versionBits h \<and>
            is_number i \<and> is_number v \<longrightarrow>
              handle_index h (make_fields h i v) = Inr i \<and>
              handle_version h (make_fields h i v) = Inr v) \<and>
           handle_index h (make_fields h i v) = Inr (toNumber (i mod 2 ^ indexBits h)) \<and>
           handle_version h (make_fields h i v) = Inr (toNumber (v mod 2 ^ versionBits h)) \<and>
           make_fields h i v = make_fields h (i mod 2 ^ indexBits h) (v mod 2 ^ versionBits h)"
proof -
  define h where "h = \<lparr> indexBits = nat ib, versionBits = nat vb, totalBits = nat (ib + vb),
                        etype = (if ib + vb > 32 then BigInt else Number) \<rparr>"
  have fac: "EntityHandleFactory ib vb = Inr h"
    using assms by (simp add: EntityHandleFactory_def h_def Let_def)
  have pos: "1 \<le> indexBits h" "1 \<le> versionBits h"
    using assms by (simp_all add: h_def)
  have dec: "handle_index h (make_fields h i v) = Inr (toNumber (i mod 2 ^ indexBits h)) \<and>
             handle_version h (make_fields h i v) = Inr (toNumber (v mod 2 ^ versionBits h))"
  proof (cases "etype h")
    case BigInt
    then show ?thesis
      by (simp add: big_index_make big_version_make take_bit_eq_mod)
  next
    case Number
    then have le: "indexBits h + versionBits h \<le> 32"
      using assms by (simp add: h_def split: if_splits)
    have ib53: "indexBits h \<le> 53" and vb53: "versionBits h \<le> 53"
      using le by simp_all
    have "toNumber (i mod 2 ^ indexBits h) = i mod 2 ^ indexBits h"
      by (rule toNumber_below [OF _ _ ib53]) simp_all
    moreover have "toNumber (v mod 2 ^ versionBits h) = v mod 2 ^ versionBits h"
      by (rule toNumber_below [OF _ _ vb53]) simp_all
    ultimately have tn: "toNumber (i mod 2 ^ indexBits h) = i mod 2 ^ indexBits h"
      "toNumber (v mod 2 ^ versionBits h) = v mod 2 ^ versionBits h"
      by simp_all
    show ?thesis
      using Number pos le tn
      by (simp add: number_index_make number_version_make take_bit_eq_mod)
  qed
  have rt: "handle_index h (make_fields h i v) = Inr i \<and>
            handle_version h (make_fields h i v) = Inr v"
    if "0 \<le> i" "i < 2 ^ indexBits h" "0 \<le> v" "v < 2 ^ versionBits h" "is_number i" "is_number v"
    using that dec by (simp add: is_number_def)
  have msk: "make_fields h i v = make_fields h (i mod 2 ^ indexBits h) (v mod 2 ^ versionBits h)"
  proof (cases "etype h")
    case BigInt
    then show ?thesis
      by (simp add: make_fields_def bigMask_eq flip: take_bit_eq_mask take_bit_eq_mod)
  next
    case Number
    then have le: "indexBits h + versionBits h \<le> 32"
      using assms by (simp add: h_def split: if_splits)
    then have "indexBits h \<le> 31" "versionBits h \<le> 31" using pos by auto
    then show ?thesis
      using Number pos
      by (simp add: make_fields_def js_and_numMask flip: take_bit_eq_mod)
  qed
  show ?thesis
    using fac dec rt msk by blast
qed


section \<open>Decoding made and stored handles\<close>

lemma factory_made:
  assumes "EntityHandleFactory ib vb = Inr h"
  shows "1 \<le> indexBits h" "1 \<le> versionBits h" "indexBits h + versionBits h \<le> 64"
    "etype h = Number \<longleftrightarrow> indexBits h + versionBits h \<le> 32"
    "int (indexBits h) = ib" "int (versionBits h) = vb"
  using assms
  by (auto simp add: EntityHandleFactory_def Let_def split: if_splits)

lemma decode_make:
  assumes f: "EntityHandleFactory ib vb = Inr h" and "ib \<le> 53" "vb \<le> 53"
  shows "handle_index h (make_fields h i v) = Inr (i mod 2 ^ indexBits h)"
    and "handle_version h (make_fields h i v) = Inr (v mod 2 ^ versionBits h)"
proof -
  note fm = factory_made [OF f]
  have ib53: "indexBits h \<le> 53" and vb53: "versionBits h \<le> 53"
    using fm assms by linarith+
  have ti: "toNumber (i mod 2 ^ indexBits h) = i mod 2 ^ indexBits h"
    by (rule toNumber_below [OF _ _ ib53]) simp_all
  have tv: "toNumber (v mod 2 ^ versionBits h) = v mod 2 ^ versionBits h"
    by (rule toNumber_below [OF _ _ vb53]) simp_all
  show "handle_index h (make_fields h i v) = Inr (i mod 2 ^ indexBits h)"
  proof (cases "etype h")
    case Number
    then show ?thesis using fm by (simp add: number_index_make take_bit_eq_mod)
  next
    case BigInt
    then show ?thesis using ti by (simp add: big_index_make take_bit_eq_mod)
  qed
  show "handle_version h (make_fields h i v) = Inr (v mod 2 ^ versionBits h)"
  proof (cases "etype h")
    case Number
    then show ?thesis using fm by (simp add: number_version_make take_bit_eq_mod)
  next
    case BigInt
    then show ?thesis using tv by (simp add: big_version_make take_bit_eq_mod)
  qed
qed

lemma handle_index_range:
  assumes f: "EntityHandleFactory ib vb = Inr h" and "ib \<le> 53"
    and "handle_index h x = Inr k"
  shows "0 \<le> k \<and> k < 2 ^ indexBits h"
proof -
  note fm = factory_made [OF f]
  have ib53: "indexBits h \<le> 53" using fm assms by linarith
  show ?thesis
  proof (cases "etype h")
    case Number
    then have "indexBits h \<le> 31" using fm by auto
    with Number assms(3) fm(1) show ?thesis
      by (auto simp add: handle_index_def js_and_numMask ebind_def split: sum.splits)
  next
    case BigInt
    with assms(3) obtain n where x: "x = Big n" and
      k: "k = toNumber (drop_bit (versionBits h) n AND bigMask (indexBits h))"
      by (auto simp add: handle_index_def split: jsval.splits)
    have "toNumber (take_bit (indexBits h) (drop_bit (versionBits h) n))
          = take_bit (indexBits h) (drop_bit (versionBits h) n)"
      by (rule toNumber_below [OF _ _ ib53]) simp_all
    then show ?thesis using k by (simp add: bigMask_eq flip: take_bit_eq_mask)
  qed
qed

lemma handle_version_range:
  assumes f: "EntityHandleFactory ib vb = Inr h" and "vb \<le> 53"
    and "handle_version h x = Inr k"
  shows "0 \<le> k \<and> k < 2 ^ versionBits h"
proof -
  note fm = factory_made [OF f]
  have vb53: "versionBits h \<le> 53" using fm assms by linarith
  show ?thesis
  proof (cases "etype h")
    case Number
    then have "versionBits h \<le> 31" using fm by auto
    with Number assms(3) fm(2) show ?thesis
      by (auto simp add: handle_version_def js_and_numMask ebind_def split: sum.splits)
  next
    case BigInt
    with assms(3) obtain n where x: "x = Big n" and
      k: "k = toNumber (n AND bigMask (versionBits h))"
      by (auto simp add: handle_version_def split: jsval.splits)
    have "toNumber (take_bit (versionBits h) n) = take_bit (versionBits h) n"
      by (rule toNumber_below [OF _ _ vb53]) simp_all
    then show ?thesis using k by (simp add: bigMask_eq flip: take_bit_eq_mask)
  qed
qed

text \<open>Storing a handle in the array of its store: the conversion to the element type
  succeeds and keeps both fields.\<close>

lemma to_elem_make:
  "\<exists>w. to_elem (if typed then (if etype h = Number then Uint32Array else BigUint64Array)
                 else PlainArray) (make_fields h i v) = Inr w"
  by (cases "etype h") (auto simp add: make_fields_def)

lemma stored_decode:
  assumes f: "EntityHandleFactory ib vb = Inr h"
    and "to_elem (if typed then (if etype h = Number then Uint32Array else BigUint64Array)
                 else PlainArray) x = Inr w"
  shows "handle_index h w = handle_index h x" and "handle_version h w = handle_version h x"
proof -
  note fm = factory_made [OF f]
  show "handle_index h w = handle_index h x"
  proof (cases "etype h")
    case Number
    with assms(2) show ?thesis
      by (cases x; cases typed)
        (auto simp add: handle_index_def js_shr_u_def toUint32_def)
  next
    case BigInt
    have "take_bit (indexBits h) (drop_bit (versionBits h) (take_bit 64 n))
          = take_bit (indexBits h) (drop_bit (versionBits h) n)" for n :: int
      using fm(3) by (auto simp add: bit_eq_iff bit_simps)
    with BigInt assms(2) show ?thesis
      by (cases x; cases typed)
        (auto simp add: handle_index_def bigMask_eq simp flip: take_bit_eq_mask)
  qed
  show "handle_version h w = handle_version h x"
  proof (cases "etype h")
    case Number
    have "toInt32 (take_bit 32 n) = toInt32 n" for n
      by (simp add: toInt32_def signed_take_bit_take_bit)
    with Number assms(2) show ?thesis
      by (cases x; cases typed)
        (auto simp add: handle_version_def js_and_def toUint32_def)
  next
    case BigInt
    have "take_bit (versionBits h) (take_bit 64 n) = take_bit (versionBits h) n" for n :: int
      using fm(3) by (simp add: min_def)
    with BigInt assms(2) show ?thesis
      by (cases x; cases typed)
        (auto simp add: handle_version_def bigMask_eq simp flip: take_bit_eq_mask)
  qed
qed

section \<open>Array reads and writes\<close>

lemma toNumber_le: "\<bar>x\<bar> \<le> 2 ^ 53 \<Longrightarrow> toNumber x = x"
proof (cases "\<bar>x\<bar> < 2 ^ 53")
  case True
  then show ?thesis by (rule toNumber_small)
next
  case False
  assume "\<bar>x\<bar> \<le> 2 ^ 53"
  with False have a: "\<bar>x\<bar> = 2 ^ 53" by simp
  then have "nat \<bar>x\<bar> < 2 ^ 54" by (simp add: nat_less_iff)
  then have "bit_length (nat \<bar>x\<bar>) \<le> 54" by (rule bit_length_le)
  then have "bit_length (nat \<bar>x\<bar>) - 53 = 0 \<or> bit_length (nat \<bar>x\<bar>) - 53 = 1" by linarith
  then show ?thesis
  proof
    assume "bit_length (nat \<bar>x\<bar>) - 53 = 0"
    then show ?thesis by (simp add: toNumber_def Let_def mult_sgn_abs del: bit_length.simps)
  next
    assume "bit_length (nat \<bar>x\<bar>) - 53 = 1"
    then show ?thesis using a
      by (simp add: toNumber_def Let_def del: bit_length.simps) (simp add: abs_if sgn_if split: if_splits)
  qed
qed

lemma array_set_ok:
  "to_elem K v = Inr w \<Longrightarrow>
   array_set K xs i v =
     Inr (if 0 \<le> i \<and> i < int (length xs) then xs[nat i := w]
          else if K = PlainArray \<and> int (length xs) \<le> i
            then xs @ replicate (nat i - length xs) Undefined @ [w]
          else xs)"
  by (simp add: array_set_def)

lemma array_set_in_range:
  "to_elem K v = Inr w \<Longrightarrow> 0 \<le> i \<Longrightarrow> i < int (length xs) \<Longrightarrow>
   array_set K xs i v = Inr (xs[nat i := w])"
  by (simp add: array_set_def)

lemma array_set_other:
  assumes "array_set K xs i v = Inr ys" and "0 \<le> j" and "j < int (length xs)" and "j \<noteq> i"
  shows "ys ! nat j = xs ! nat j" and "length xs \<le> length ys"
  using assms
  by (auto simp add: array_set_def nth_append nth_list_update split: sum.splits if_splits)

lemma array_get_in_range: "0 \<le> i \<Longrightarrow> i < int (length xs) \<Longrightarrow> array_get xs i = xs ! nat i"
  by (simp add: array_get_def)

section \<open>Evaluation of the model on concrete inputs\<close>

lemmas num_defs = toInt32_def toUint32_def js_and_def js_or_def js_shl_def js_shr_u_def
  numMask_def bigMask_def

lemmas handle_defs = make_fields_def handle_make_def handle_index_def handle_version_def
  EntityHandleSmall_def EntityHandleMedium_def EntityHandleLarge_def

text \<open>Sequencing is evaluated from the outside: the first step is computed before
  the continuation is looked at.\<close>

lemma ebind_Inl: "ebind (Inl e) f = Inl e"
  by (simp add: ebind_def)

lemma ebind_Inr: "ebind (Inr x) f = f x"
  by (simp add: ebind_def)

lemma ebind_weak_cong: "m = m' \<Longrightarrow> ebind m f = ebind m' f"
  by simp

lemmas array_defs = array_get_def array_set_def ebind_Inl ebind_Inr comp_get_def comp_set_def
  comp_extend_def

lemmas set_defs = TOMBSTONE_def FAILED_OPERATION_def SUCCESS_OPERATION_def
  DEFAULT_DENSE_VAL_def array_length_ok_def SparseSet_new_def dense_kind_def pageIndex_def pageOffset_def
  capacity_def reset_def clear_def resize_def SparseSet_len_def SparseSet_data_def
  SparseSet_contains_def SparseSet_index_def sparse_set_def getOrCreatePage_def
  SparseSet_add_def SparseSet_remove_def SparseSet_swap_def sort_cmp_def array_sort_def
  SparseSet_sort_def

lemmas es_defs = DEFAULT_ENTITY_VALUE_def IDX_SENTINEL_def DefaultEntityStoreOptions_def
  es_zero_def es_kind_def EntityStore_new_def es_grow_def EntityStore_create_def
  EntityStore_isAlive_def EntityStore_remove_def

lemmas cs_defs = ComponentStandard_def ComponentEmpty_def ComponentStore_new_def reserve_def
  ComponentStore_add_def ComponentStore_remove_def ComponentStore_contains_def
  ComponentStore_len_def ComponentStore_data_def raw_def ComponentStore_get_def clone_def
  ComponentStore_getConst_def ComponentStore_tryGet_def ComponentStore_tryGetConst_def
  ComponentStore_swap_def sortEmpty_def sortBasedComponent_def

lemmas reg_defs = DefaultComponentOptions_def DefaultRegistryOptions_def SENTINEL_def
  Registry_new_def getCompConfig_def put_store_def prepare_def Registry_len_def valid_def
  Registry_create_def removeAll_def destroy_def Registry_add_def addComps_def replace_def
  fetchReplace_def Registry_remove_def removeIfExist_def has_def Registry_get_def
  Registry_getConst_def Registry_tryGet_def Registry_tryGetConst_def Registry_sort_def

lemma replicate_4: "replicate 4 x = [x, x, x, x]"
  by (simp add: numeral_eq_Suc)

lemma replicate_2: "replicate 2 x = [x, x]"
  by (simp add: numeral_eq_Suc)

text \<open>The recursive functions on a numeral argument.\<close>

lemmas sort_rebuild_numeral = sort_rebuild.simps(2) [of _ _ "pred_numeral n", folded numeral_eq_Suc] for n

lemmas sort_inner_numeral = sort_inner.simps(2) [of _ _ "pred_numeral n", folded numeral_eq_Suc] for n

lemmas sort_outer_numeral = sort_outer.simps(2) [of _ _ _ "pred_numeral n", folded numeral_eq_Suc] for n

lemmas create_n_numeral = create_n.simps(2) [of "pred_numeral n", folded numeral_eq_Suc] for n

lemmas recycle_slot_numeral = recycle_slot.simps(2) [of "pred_numeral n", folded numeral_eq_Suc] for n

lemmas model_defs = num_defs handle_defs array_defs set_defs es_defs cs_defs reg_defs
  small_options_def payload_of_def small_set_options_def fixed_store_options_def
  Let_def toNumber_small replicate_4 replicate_2 sort_rebuild_numeral sort_inner_numeral
  sort_outer_numeral create_n_numeral recycle_slot_numeral small_codec_options_def

section \<open>Round trip and failures of the handle codec\<close>

lemma Small_factory: "EntityHandleFactory 12 4 = Inr EntityHandleSmall"
  by (simp add: EntityHandleFactory_def EntityHandleSmall_def)

lemma factory_Inr_iff:
  "(\<exists>h. EntityHandleFactory ib vb = Inr h) \<longleftrightarrow> 0 < ib \<and> 0 < vb \<and> ib + vb \<le> 64"
  by (auto simp add: EntityHandleFactory_def Let_def)

lemma handle_make_Inr_iff:
  "(\<exists>x. handle_make h a b = Inr x) \<longleftrightarrow>
     (if etype h = Number then \<not> is_big a \<and> \<not> is_big b
      else a \<noteq> PosInf \<and> a \<noteq> Undefined \<and> b \<noteq> PosInf \<and> b \<noteq> Undefined)"
  by (cases "etype h"; cases a; cases b) (simp_all add: handle_make_def ebind_def)

lemma handle_index_Inr_iff:
  "(\<exists>k. handle_index h y = Inr k) \<longleftrightarrow> (is_big y \<longleftrightarrow> etype h = BigInt)"
  by (cases "etype h"; cases y) (simp_all add: handle_index_def)

lemma handle_version_Inr_iff:
  "(\<exists>k. handle_version h y = Inr k) \<longleftrightarrow> (is_big y \<longleftrightarrow> etype h = BigInt)"
  by (cases "etype h"; cases y) (simp_all add: handle_version_def)

lemma Large_factory: "EntityHandleFactory 32 32 = Inr EntityHandleLarge"
  by (simp add: EntityHandleFactory_def EntityHandleLarge_def)

lemma Medium_factory: "EntityHandleFactory 20 12 = Inr EntityHandleMedium"
  by (simp add: EntityHandleFactory_def EntityHandleMedium_def)





section \<open>Membership ignores the version field\<close>

lemma SparseSet_version_blind:
  assumes "handle_index (entityHandler s) a = handle_index (entityHandler s) b"
  shows "SparseSet_contains s a = SparseSet_contains s b"
    and "SparseSet_index s a = SparseSet_index s b"
proof -
  have pi: "pageIndex s a = pageIndex s b" and po: "pageOffset s a = pageOffset s b"
    using assms by (simp_all add: pageIndex_def pageOffset_def)
  show "SparseSet_contains s a = SparseSet_contains s b"
    unfolding SparseSet_contains_def pi po by (rule refl)
  show "SparseSet_index s a = SparseSet_index s b"
    unfolding SparseSet_index_def pi po by (rule refl)
qed

lemma stale_handle_scenario_eval:
  "\<exists>r cs. stale_handle_scenario = Inr (Num 0, Num 1, r) \<and>
     map_of (r_components r) 0 = Some cs \<and>
     entityHandler (cs_set cs) = EntityHandleMedium \<and>
     valid r (Num 0) = Inr False \<and> valid r (Num 1) = Inr True \<and>
     SparseSet_contains (cs_set cs) (Num 1) = Inr True \<and>
     Registry_tryGet r (Num 1) 0 = Inr (Some 20) \<and>
     \<not> isEmptyComp cs \<and> SparseSet_contains (cs_set cs) (Num 4096) = Inr False"
  by (simp add: stale_handle_scenario_def model_defs cong: ebind_weak_cong)

lemma Medium_index_0_1:
  "handle_index EntityHandleMedium (Num 0) = handle_index EntityHandleMedium (Num 1)"
  by (simp add: model_defs cong: ebind_weak_cong)



section \<open>The tryGet family\<close>

lemma SparseSet_index_absent:
  "SparseSet_contains s e = Inr False \<Longrightarrow> SparseSet_index s e = Inr FAILED_OPERATION"
  by (auto simp add: SparseSet_contains_def SparseSet_index_def ebind_def
      split: sum.splits option.splits)

lemma tag_scenario_eval:
  "\<exists>r cs. tag_scenario = Inr (Num 0, Num 4096, r) \<and>
     map_of (r_components r) 0 = Some cs \<and> isEmptyComp cs \<and>
     valid r (Num 0) = Inr True \<and> has r (Num 0) 0 = Inr True \<and> Registry_len r 0 = 2"
  by (simp add: tag_scenario_def model_defs cong: ebind_weak_cong)




section \<open>SparseSet.remove on a stale cell\<close>

text \<open>Where \<open>remove\<close> does refuse an absent entity: the set is empty, the page does not
  exist, or the cell is unset or holds the tombstone.\<close>

lemma SparseSet_remove_absent:
  assumes "pageIndex s e = Inr p" and "pageOffset s e = Inr off"
    and "slength s = 0 \<or> sparse s p = None \<or>
         (\<exists>page. sparse s p = Some page \<and> (page off = None \<or> page off = Some TOMBSTONE))"
  shows "SparseSet_remove s e = Inr (FAILED_OPERATION, s)"
  using assms by (auto simp add: SparseSet_remove_def ebind_def)

text \<open>
  Claim C1 on the code. In the stale-cell scenario the set holds \<open>e1\<close> alone and does not
  contain \<open>e2\<close>, whose cell holds the index 1 from before \<open>reset\<close>. \<open>remove(e2)\<close> does not
  compare that index with the length: it returns success, takes the length to 0 and
  points the cell of \<open>e1\<close> at index 1, so \<open>e1\<close> is no longer contained.
\<close>

theorem SparseSet_remove_stale_cell:
  "(case stale_cell_scenario of
      Inl err \<Rightarrow> False
    | Inr s \<Rightarrow>
        SparseSet_len s = 1 \<and>
        SparseSet_contains s (Num 4096) = Inr True \<and>
        SparseSet_contains s (Num 8192) = Inr False \<and>
        (case SparseSet_remove s (Num 8192) of
           Inl err \<Rightarrow> False
         | Inr (status, s') \<Rightarrow>
             status = SUCCESS_OPERATION \<and>
             SparseSet_len s' = 0 \<and>
             SparseSet_contains s' (Num 4096) = Inr False))"
  by (simp add: stale_cell_scenario_def model_defs cong: ebind_weak_cong)

section \<open>SparseSet.sort on a dense array with spare capacity\<close>

lemma zeros_not_entities: "{#Num 0, Num 0#} \<noteq> {#Num 8192, Num 4096#}"
proof
  assume "{#Num 0, Num 0#} = {#Num 8192, Num 4096#}"
  then have "set_mset {#Num 0, Num 0#} = set_mset {#Num 8192, Num 4096#}"
    by (rule arg_cong)
  then show False by auto
qed

text \<open>
  Claim C2 on the code. The set of the scenario holds \<open>e2, e1\<close> in a typed dense array of
  capacity four, whose two spare cells are 0. \<open>sort\<close> with the ascending comparator sorts
  the whole array: the two zeros come first, so the live prefix no longer holds \<open>e1\<close> and
  \<open>e2\<close>, and the rebuilt cell of \<open>dense[0]\<close> (slot 0) holds 1, not 0.
\<close>

theorem SparseSet_sort_spare_capacity:
  "(case unsorted_scenario of
      Inl err \<Rightarrow> False
    | Inr s \<Rightarrow>
        SparseSet_len s = 2 \<and> capacity s = 4 \<and>
        dense s = [Num 8192, Num 4096, Num 0, Num 0] \<and>
        (case SparseSet_sort s numeric_cmp of
           Inl err \<Rightarrow> False
         | Inr (status, s') \<Rightarrow>
             status = SUCCESS_OPERATION \<and>
             SparseSet_len s' = 2 \<and>
             dense s' = [Num 0, Num 0, Num 4096, Num 8192] \<and>
             mset (take 2 (dense s')) \<noteq> mset (take 2 (dense s)) \<and>
             (case sparse s' 0 of None \<Rightarrow> False | Some page \<Rightarrow> page 0 = Some 1)))"
  by (simp add: unsorted_scenario_def model_defs zeros_not_entities cong: ebind_weak_cong)

section \<open>EntityStore.create at the last slot\<close>

text \<open>
  Claim C5 on the code. A store of capacity 2 that may not grow: the first \<open>create\<close> fills
  slot 0; the second finds \<open>append_index = cap - 1\<close> and raises, with slot 1 unused and
  \<open>append_index\<close> different from \<open>INVALID_IDX\<close>.
\<close>

theorem EntityStore_create_last_slot:
  "(case EntityStore_create (EntityStore_new fixed_store_options) of
      Inl err \<Rightarrow> False
    | Inr (e, st) \<Rightarrow>
        e = Num 0 \<and> append_index st = 1 \<and> cap st = 2 \<and>
        length (es_entities st) = 2 \<and> free_slot st = IDX_SENTINEL \<and>
        Num (append_index st) \<noteq> INVALID_IDX st \<and>
        EntityStore_create st = Inl CapacityExceeded)"
  by (simp add: model_defs cong: ebind_weak_cong)

section \<open>EntityStore: removal and recycling\<close>

lemma es_kind_eq:
  "es_kind st = (if isTypedArray st
                 then (if etype (es_entityHandler st) = Number then Uint32Array else BigUint64Array)
                 else PlainArray)"
  by (simp add: es_kind_def)

lemma to_elem_make_es: "\<exists>w. to_elem (es_kind st) (make_fields (es_entityHandler st) i v) = Inr w"
  unfolding es_kind_eq by (rule to_elem_make)

lemma stored_decode_es:
  assumes "EntityHandleFactory ib vb = Inr (es_entityHandler st)"
    and "to_elem (es_kind st) x = Inr w"
  shows "handle_index (es_entityHandler st) w = handle_index (es_entityHandler st) x"
    and "handle_version (es_entityHandler st) w = handle_version (es_entityHandler st) x"
  using assms unfolding es_kind_eq by (rule stored_decode)+

lemma EntityStore_remove_InrE:
  assumes "EntityStore_remove st x = Inr st1"
  shows "\<exists>i vx ents'.
           handle_index (es_entityHandler st) x = Inr i \<and>
           handle_version (es_entityHandler st) x = Inr vx \<and>
           i < append_index st \<and> array_get (es_entities st) i = x \<and>
           array_set (es_kind st) (es_entities st) i
             (make_fields (es_entityHandler st) (free_slot st) (toNumber (vx + 1))) = Inr ents' \<and>
           st1 = st\<lparr> es_entities := ents', free_slot := i \<rparr>"
  using assms
  by (auto simp add: EntityStore_remove_def EntityStore_isAlive_def ebind_def
      split: sum.splits if_splits)

lemma EntityStore_remove_InrI:
  assumes "handle_index (es_entityHandler st) x = Inr i"
    and "handle_version (es_entityHandler st) x = Inr vx"
    and "i < append_index st" and "array_get (es_entities st) i = x"
    and "array_set (es_kind st) (es_entities st) i
           (make_fields (es_entityHandler st) (free_slot st) (toNumber (vx + 1))) = Inr ents'"
  shows "EntityStore_remove st x = Inr (st\<lparr> es_entities := ents', free_slot := i \<rparr>)"
  using assms
  by (simp add: EntityStore_remove_def EntityStore_isAlive_def ebind_def)

lemma EntityStore_create_pop_InrE:
  assumes "free_slot st \<noteq> IDX_SENTINEL" and "EntityStore_create st = Inr (e, st1)"
  shows "\<exists>ver nxt ents'.
           handle_version (es_entityHandler st) (array_get (es_entities st) (free_slot st)) = Inr ver \<and>
           handle_index (es_entityHandler st) (array_get (es_entities st) (free_slot st)) = Inr nxt \<and>
           e = make_fields (es_entityHandler st) (free_slot st) ver \<and>
           array_set (es_kind st) (es_entities st) (free_slot st) e = Inr ents' \<and>
           st1 = st\<lparr> es_entities := ents', free_slot := nxt \<rparr>"
  using assms
  by (auto simp add: EntityStore_create_def ebind_def Let_def split: sum.splits if_splits)

lemma EntityStore_create_pop_InrI:
  assumes "free_slot st \<noteq> IDX_SENTINEL"
    and "handle_version (es_entityHandler st) (array_get (es_entities st) (free_slot st)) = Inr ver"
    and "handle_index (es_entityHandler st) (array_get (es_entities st) (free_slot st)) = Inr nxt"
    and "array_set (es_kind st) (es_entities st) (free_slot st)
           (make_fields (es_entityHandler st) (free_slot st) ver) = Inr ents'"
  shows "EntityStore_create st =
           Inr (make_fields (es_entityHandler st) (free_slot st) ver,
                st\<lparr> es_entities := ents', free_slot := nxt \<rparr>)"
  using assms
  by (simp add: EntityStore_create_def ebind_def Let_def)

text \<open>What the write of a made handle leaves in a cell of the array.\<close>

lemma written_cell:
  assumes f: "EntityHandleFactory ib vb = Inr (es_entityHandler st)" and b: "ib \<le> 53" "vb \<le> 53"
    and set: "array_set (es_kind st) (es_entities st) i (make_fields (es_entityHandler st) a v) = Inr ents'"
    and i: "0 \<le> i" "i < int (length (es_entities st))"
  shows "length ents' = length (es_entities st)"
    and "handle_version (es_entityHandler st) (ents' ! nat i) = Inr (v mod 2 ^ versionBits (es_entityHandler st))"
    and "handle_index (es_entityHandler st) (ents' ! nat i) = Inr (a mod 2 ^ indexBits (es_entityHandler st))"
proof -
  obtain w where w: "to_elem (es_kind st) (make_fields (es_entityHandler st) a v) = Inr w"
    using to_elem_make_es by blast
  with set i have e: "ents' = (es_entities st)[nat i := w]"
    by (simp add: array_set_in_range)
  then show "length ents' = length (es_entities st)" by simp
  have n: "ents' ! nat i = w" using e i by simp
  show "handle_version (es_entityHandler st) (ents' ! nat i) = Inr (v mod 2 ^ versionBits (es_entityHandler st))"
    unfolding n stored_decode_es(2) [OF f w] by (rule decode_make(2) [OF f b])
  show "handle_index (es_entityHandler st) (ents' ! nat i) = Inr (a mod 2 ^ indexBits (es_entityHandler st))"
    unfolding n stored_decode_es(1) [OF f w] by (rule decode_make(1) [OF f b])
qed

text \<open>One call keeps the slot invariant; a \<open>remove\<close> at the slot raises its version by one.\<close>

lemma slot_step:
  assumes f: "EntityHandleFactory ib vb = Inr (es_entityHandler st)" and b: "ib \<le> 53" "vb \<le> 53"
    and inv: "slot_version_in st idx lo hi"
    and bound: "hi + int (recycles (es_entityHandler st) idx [op]) < 2 ^ versionBits (es_entityHandler st)"
  shows "slot_version_in (es_step st op) idx lo (hi + int (recycles (es_entityHandler st) idx [op])) \<and>
         es_entityHandler (es_step st op) = es_entityHandler st"
proof -
  let ?h = "es_entityHandler st"
  from inv obtain w0 where
    fs: "0 \<le> free_slot st" "free_slot st < 2 ^ indexBits ?h" and
    idx: "0 \<le> idx" "idx < int (length (es_entities st))" and
    w0: "handle_version ?h (es_entities st ! nat idx) = Inr w0" "lo \<le> w0" "w0 \<le> hi"
    by (auto simp add: slot_version_in_def)
  have keep: "slot_version_in st idx lo (hi + int k)" for k
    using inv by (auto simp add: slot_version_in_def)
  show ?thesis
  proof (cases op)
    case Create
    show ?thesis
    proof (cases "EntityStore_create st")
      case (Inl err)
      with Create inv show ?thesis by simp
    next
      case (Inr p)
      obtain e st1 where p: "p = (e, st1)" by (cases p)
      from fs have ne: "free_slot st \<noteq> IDX_SENTINEL" by (simp add: IDX_SENTINEL_def)
      from EntityStore_create_pop_InrE [OF ne Inr [unfolded p]] obtain ver nxt ents' where
        ver: "handle_version ?h (array_get (es_entities st) (free_slot st)) = Inr ver" and
        nxt: "handle_index ?h (array_get (es_entities st) (free_slot st)) = Inr nxt" and
        e: "e = make_fields ?h (free_slot st) ver" and
        set: "array_set (es_kind st) (es_entities st) (free_slot st) e = Inr ents'" and
        st1: "st1 = st\<lparr> es_entities := ents', free_slot := nxt \<rparr>"
        by blast
      have step: "es_step st op = st1" using Create Inr p by simp
      have nr: "0 \<le> nxt \<and> nxt < 2 ^ indexBits ?h"
        by (rule handle_index_range [OF f b(1) nxt])
      have cell: "idx < int (length ents') \<and>
                  handle_version ?h (ents' ! nat idx) = Inr w0"
      proof (cases "free_slot st = idx")
        case True
        then have "array_get (es_entities st) (free_slot st) = es_entities st ! nat idx"
          using idx by (simp add: array_get_in_range)
        with ver w0 have vw: "ver = w0" by simp
        from handle_version_range [OF f b(2) w0(1)] have "w0 mod 2 ^ versionBits ?h = w0"
          by simp
        with written_cell(1,2) [OF f b set [unfolded e True] idx] vw idx
        show ?thesis by simp
      next
        case False
        from array_set_other [OF set idx False [symmetric]] w0 idx show ?thesis by simp
      qed
      show ?thesis
        unfolding step using Create nr cell idx w0 st1
        by (auto simp add: slot_version_in_def)
    qed
  next
    case (Remove x)
    show ?thesis
    proof (cases "EntityStore_remove st x")
      case (Inl err)
      with Remove keep show ?thesis by simp
    next
      case (Inr st1)
      from EntityStore_remove_InrE [OF Inr] obtain i vx ents' where
        i: "handle_index ?h x = Inr i" and
        vx: "handle_version ?h x = Inr vx" and
        ia: "i < append_index st" and
        ax: "array_get (es_entities st) i = x" and
        set: "array_set (es_kind st) (es_entities st) i
                (make_fields ?h (free_slot st) (toNumber (vx + 1))) = Inr ents'" and
        st1: "st1 = st\<lparr> es_entities := ents', free_slot := i \<rparr>"
        by blast
      have step: "es_step st op = st1" using Remove Inr by simp
      have ir: "0 \<le> i \<and> i < 2 ^ indexBits ?h"
        by (rule handle_index_range [OF f b(1) i])
      show ?thesis
      proof (cases "i = idx")
        case True
        then have "x = es_entities st ! nat idx"
          using ax idx by (simp add: array_get_in_range)
        with vx w0 have vw: "vx = w0" by simp
        have rc: "recycles ?h idx [op] = 1" using Remove i True by simp
        with bound w0 have lt: "w0 + 1 < 2 ^ versionBits ?h" by simp
        have "versionBits ?h \<le> 53" using factory_made(6) [OF f] b by linarith
        then have "(2::int) ^ versionBits ?h \<le> 2 ^ 53" by (rule pow2_mono)
        with lt w0 handle_version_range [OF f b(2) w0(1)] have "\<bar>w0 + 1\<bar> < 2 ^ 53" by linarith
        then have tn: "toNumber (w0 + 1) = w0 + 1" by (rule toNumber_small)
        have md: "(w0 + 1) mod 2 ^ versionBits ?h = w0 + 1"
          using lt handle_version_range [OF f b(2) w0(1)] by simp
        from written_cell(1,2) [OF f b set [unfolded True vw tn] idx] md
        have "length ents' = length (es_entities st)"
          "handle_version ?h (ents' ! nat idx) = Inr (w0 + 1)" by simp_all
        then show ?thesis
          unfolding step rc using st1 ir idx w0 True
          by (auto simp add: slot_version_in_def)
      next
        case False
        have rc: "recycles ?h idx [op] = 0" using Remove i False by simp
        from array_set_other [OF set idx] False w0 idx
        have "idx < int (length ents')" "handle_version ?h (ents' ! nat idx) = Inr w0"
          by auto
        then show ?thesis
          unfolding step rc using st1 ir idx w0
          by (auto simp add: slot_version_in_def)
      qed
    qed
  qed
qed

lemma recycles_append: "recycles h idx (xs @ ys) = recycles h idx xs + recycles h idx ys"
proof (induction xs)
  case Nil
  then show ?case by simp
next
  case (Cons a xs)
  then show ?case by (cases a) simp_all
qed

lemma slot_run:
  assumes f: "EntityHandleFactory ib vb = Inr (es_entityHandler st)" and b: "ib \<le> 53" "vb \<le> 53"
    and inv: "slot_version_in st idx lo hi"
    and bound: "hi + int (recycles (es_entityHandler st) idx ops) < 2 ^ versionBits (es_entityHandler st)"
  shows "slot_version_in (es_run st ops) idx lo (hi + int (recycles (es_entityHandler st) idx ops)) \<and>
         es_entityHandler (es_run st ops) = es_entityHandler st"
  using bound
proof (induction ops rule: rev_induct)
  case Nil
  then show ?case using inv by (simp add: es_run_def)
next
  case (snoc op ops)
  let ?h = "es_entityHandler st"
  let ?st = "es_run st ops"
  from snoc.prems have b1: "hi + int (recycles ?h idx ops) < 2 ^ versionBits ?h"
    by (simp add: recycles_append)
  from snoc.IH [OF b1] have inv1: "slot_version_in ?st idx lo (hi + int (recycles ?h idx ops))"
    and h1: "es_entityHandler ?st = ?h" by simp_all
  have f1: "EntityHandleFactory ib vb = Inr (es_entityHandler ?st)" using f h1 by simp
  have b2: "hi + int (recycles ?h idx ops) + int (recycles (es_entityHandler ?st) idx [op])
            < 2 ^ versionBits (es_entityHandler ?st)"
    using snoc.prems h1 by (simp add: recycles_append)
  from slot_step [OF f1 b inv1 b2] h1
  show ?case by (simp add: es_run_def recycles_append add.assoc)
qed

text \<open>\<open>remove\<close> of a live entity: the cell of its slot receives the old head of the free
  list and the next version, and the entity is no longer alive.\<close>

lemma version_defined:
  "handle_index h e = Inr i \<Longrightarrow> \<exists>v. handle_version h e = Inr v"
  by (cases "etype h"; cases e)
    (auto simp add: handle_index_def handle_version_def split: sum.splits)

lemma succ_mod_neq:
  assumes "0 \<le> v" "v < 2 ^ n" "1 \<le> n"
  shows "(v + 1) mod 2 ^ n \<noteq> (v::int)"
proof (cases "v + 1 < 2 ^ n")
  case True
  with assms show ?thesis by simp
next
  case False
  with assms have e: "v + 1 = 2 ^ n" by simp
  have "(2::int) ^ 1 \<le> 2 ^ n" using assms(3) by (rule pow2_mono)
  with e have "1 \<le> v" by simp
  moreover have "(v + 1) mod 2 ^ n = 0" using e by simp
  ultimately show ?thesis by simp
qed

lemma remove_live:
  assumes f: "EntityHandleFactory ib vb = Inr (es_entityHandler st)" and b: "ib \<le> 53" "vb \<le> 53"
    and len: "append_index st \<le> int (length (es_entities st))"
    and alive: "EntityStore_isAlive st e = Inr True"
  shows "\<exists>st1 idx v ents'.
           EntityStore_remove st e = Inr st1 \<and>
           st1 = st\<lparr> es_entities := ents', free_slot := idx \<rparr> \<and>
           handle_index (es_entityHandler st) e = Inr idx \<and>
           handle_version (es_entityHandler st) e = Inr v \<and>
           0 \<le> idx \<and> idx < append_index st \<and> idx < 2 ^ indexBits (es_entityHandler st) \<and>
           0 \<le> v \<and> v < 2 ^ versionBits (es_entityHandler st) \<and>
           es_entities st ! nat idx = e \<and>
           length ents' = length (es_entities st) \<and>
           (\<forall>j. 0 \<le> j \<and> j < int (length (es_entities st)) \<and> j \<noteq> idx \<longrightarrow>
                ents' ! nat j = es_entities st ! nat j) \<and>
           handle_version (es_entityHandler st) (ents' ! nat idx)
             = Inr ((v + 1) mod 2 ^ versionBits (es_entityHandler st)) \<and>
           handle_index (es_entityHandler st) (ents' ! nat idx)
             = Inr (free_slot st mod 2 ^ indexBits (es_entityHandler st)) \<and>
           EntityStore_isAlive st1 e = Inr False"
proof -
  let ?h = "es_entityHandler st"
  from alive obtain idx where
    i: "handle_index ?h e = Inr idx" and ia: "idx < append_index st" and
    ax: "array_get (es_entities st) idx = e"
    by (auto simp add: EntityStore_isAlive_def ebind_def split: sum.splits)
  from version_defined [OF i] obtain v where v: "handle_version ?h e = Inr v" by blast
  note ir = handle_index_range [OF f b(1) i]
  note vr = handle_version_range [OF f b(2) v]
  have il: "idx < int (length (es_entities st))" using ia len by simp
  have ex: "es_entities st ! nat idx = e" using ax ir il by (simp add: array_get_in_range)
  have vb53: "versionBits ?h \<le> 53" using factory_made(6) [OF f] b by linarith
  then have "(2::int) ^ versionBits ?h \<le> 2 ^ 53" by (rule pow2_mono)
  with vr have "\<bar>v + 1\<bar> \<le> 2 ^ 53" by linarith
  then have tn: "toNumber (v + 1) = v + 1" by (rule toNumber_le)
  obtain w where w: "to_elem (es_kind st) (make_fields ?h (free_slot st) (v + 1)) = Inr w"
    using to_elem_make_es by blast
  let ?ents = "(es_entities st)[nat idx := w]"
  have set: "array_set (es_kind st) (es_entities st) idx (make_fields ?h (free_slot st) (v + 1))
             = Inr ?ents"
    using w ir il by (simp add: array_set_in_range)
  let ?st1 = "st\<lparr> es_entities := ?ents, free_slot := idx \<rparr>"
  have rm: "EntityStore_remove st e = Inr ?st1"
    by (rule EntityStore_remove_InrI [OF i v ia ax]) (simp add: tn set)
  note wc = written_cell [OF f b set conjunct1 [OF ir] il]
  have "handle_version ?h (?ents ! nat idx) \<noteq> handle_version ?h e"
    unfolding wc(2) v using succ_mod_neq [of v "versionBits ?h"] vr factory_made(2) [OF f]
    by simp
  then have "?ents ! nat idx \<noteq> e" by auto
  then have dead: "EntityStore_isAlive ?st1 e = Inr False"
    using i ir il by (simp add: EntityStore_isAlive_def ebind_def array_get_def)
  have other: "\<forall>j. 0 \<le> j \<and> j < int (length (es_entities st)) \<and> j \<noteq> idx \<longrightarrow>
                ?ents ! nat j = es_entities st ! nat j"
    using ir by (auto simp add: nth_list_update)
  show ?thesis
    using rm i v ir ia vr ex wc dead other by blast
qed

text \<open>The free list: \<open>create\<close> pops its head, \<open>remove\<close> pushes the slot of the entity.\<close>

lemma free_chain_cong:
  assumes "es_entityHandler st' = es_entityHandler st"
    and "length (es_entities st) \<le> length (es_entities st')"
    and "\<forall>j \<in> fst ` set L. 0 \<le> j \<and> j < int (length (es_entities st)) \<longrightarrow>
           es_entities st' ! nat j = es_entities st ! nat j"
    and "free_chain st fs L"
  shows "free_chain st' fs L"
  using assms(3,4)
proof (induction L arbitrary: fs)
  case Nil
  then show ?case by simp
next
  case (Cons a L)
  obtain i v where a: "a = (i, v)" by (cases a)
  from Cons.prems have same: "es_entities st' ! nat i = es_entities st ! nat i"
    and rest: "\<forall>j \<in> fst ` set L. 0 \<le> j \<and> j < int (length (es_entities st)) \<longrightarrow>
           es_entities st' ! nat j = es_entities st ! nat j"
    by (auto simp add: a)
  from Cons.prems(2) obtain nxt where
    nxt: "handle_index (es_entityHandler st) (es_entities st ! nat i) = Inr nxt"
    and ch: "free_chain st nxt L"
    by (auto simp add: a split: sum.splits)
  from Cons.IH [OF rest ch] have "free_chain st' nxt L" .
  with Cons.prems(2) nxt same assms(1,2) show ?case
    by (auto simp add: a)
qed

lemma pop_chain:
  assumes f: "EntityHandleFactory ib vb = Inr (es_entityHandler st)" and b: "ib \<le> 53" "vb \<le> 53"
    and ch: "free_chain st (free_slot st) ((i, v) # rest)"
  shows "\<exists>st'. EntityStore_create st = Inr (make_fields (es_entityHandler st) i v, st') \<and>
           es_entityHandler st' = es_entityHandler st \<and>
           free_chain st' (free_slot st') rest"
proof -
  let ?h = "es_entityHandler st"
  from ch obtain nxt where
    fs: "free_slot st = i" and i: "0 \<le> i" "i < int (length (es_entities st))" and
    v: "handle_version ?h (es_entities st ! nat i) = Inr v" and
    ni: "i \<notin> fst ` set rest" and
    nxt: "handle_index ?h (es_entities st ! nat i) = Inr nxt" and
    chr: "free_chain st nxt rest"
    by (auto split: sum.splits)
  have ne: "free_slot st \<noteq> IDX_SENTINEL" using fs i by (simp add: IDX_SENTINEL_def)
  have ag: "array_get (es_entities st) (free_slot st) = es_entities st ! nat i"
    using fs i by (simp add: array_get_in_range)
  obtain w where w: "to_elem (es_kind st) (make_fields ?h i v) = Inr w"
    using to_elem_make_es by blast
  let ?ents = "(es_entities st)[nat i := w]"
  have set: "array_set (es_kind st) (es_entities st) (free_slot st)
               (make_fields ?h (free_slot st) v) = Inr ?ents"
    using w i fs by (simp add: array_set_in_range)
  let ?st' = "st\<lparr> es_entities := ?ents, free_slot := nxt \<rparr>"
  have cr: "EntityStore_create st = Inr (make_fields ?h i v, ?st')"
    using EntityStore_create_pop_InrI [OF ne v [folded ag] nxt [folded ag] set] fs by simp
  have "\<forall>j \<in> fst ` set rest. 0 \<le> j \<and> j < int (length (es_entities st)) \<longrightarrow>
          es_entities ?st' ! nat j = es_entities st ! nat j"
  proof (intro ballI impI)
    fix j assume "j \<in> fst ` set rest" and "0 \<le> j \<and> j < int (length (es_entities st))"
    then have "0 \<le> j" by simp
    from \<open>j \<in> fst ` set rest\<close> ni have "j \<noteq> i" by blast
    with \<open>0 \<le> j\<close> i have "nat j \<noteq> nat i" by simp
    then show "es_entities ?st' ! nat j = es_entities st ! nat j"
      by (simp add: nth_list_update)
  qed
  then have "free_chain ?st' nxt rest"
    by (intro free_chain_cong [OF _ _ _ chr]) simp_all
  with cr show ?thesis by simp
qed


lemma create_n_chain:
  assumes f: "EntityHandleFactory ib vb = Inr (es_entityHandler st)" and b: "ib \<le> 53" "vb \<le> 53"
    and ch: "free_chain st (free_slot st) L"
  shows "\<exists>st'. create_n (length L) st =
           Inr (map (\<lambda>(i, v). make_fields (es_entityHandler st) i v) L, st')"
  using f ch
proof (induction L arbitrary: st)
  case Nil
  then show ?case by simp
next
  case (Cons a L)
  obtain i v where a: "a = (i, v)" by (cases a)
  from pop_chain [OF Cons.prems(1) b Cons.prems(2) [unfolded a]] obtain st1 where
    cr: "EntityStore_create st = Inr (make_fields (es_entityHandler st) i v, st1)" and
    h1: "es_entityHandler st1 = es_entityHandler st" and
    ch1: "free_chain st1 (free_slot st1) L"
    by blast
  have f1: "EntityHandleFactory ib vb = Inr (es_entityHandler st1)"
    using Cons.prems(1) h1 by simp
  from Cons.IH [OF f1 ch1] obtain st2 where
    "create_n (length L) st1 = Inr (map (\<lambda>(i, v). make_fields (es_entityHandler st1) i v) L, st2)"
    by blast
  with cr h1 show ?case by (simp add: a ebind_def)
qed

lemma push_chain:
  assumes f: "EntityHandleFactory ib vb = Inr (es_entityHandler st)" and b: "ib \<le> 53" "vb \<le> 53"
    and len: "append_index st \<le> int (length (es_entities st))"
    and alive: "EntityStore_isAlive st e = Inr True"
    and nowrap: "version_of (es_entityHandler st) e + 1 < 2 ^ versionBits (es_entityHandler st)"
    and ch: "free_chain st (free_slot st) L"
    and fresh: "slot_of (es_entityHandler st) e \<notin> fst ` set L"
  shows "\<exists>st1. EntityStore_remove st e = Inr st1 \<and>
           es_entityHandler st1 = es_entityHandler st \<and>
           append_index st1 = append_index st \<and>
           length (es_entities st1) = length (es_entities st) \<and>
           (\<forall>x. EntityStore_isAlive st x = Inr True \<and>
                slot_of (es_entityHandler st) x \<noteq> slot_of (es_entityHandler st) e \<longrightarrow>
                EntityStore_isAlive st1 x = Inr True) \<and>
           free_chain st1 (free_slot st1)
             ((slot_of (es_entityHandler st) e, version_of (es_entityHandler st) e + 1) # L)"
proof -
  let ?h = "es_entityHandler st"
  from remove_live [OF f b len alive] obtain st1 idx v ents' where
    rm: "EntityStore_remove st e = Inr st1" and
    st1: "st1 = st\<lparr> es_entities := ents', free_slot := idx \<rparr>" and
    i: "handle_index ?h e = Inr idx" and v: "handle_version ?h e = Inr v" and
    ir: "0 \<le> idx" "idx < append_index st" "idx < 2 ^ indexBits ?h" and
    vr: "0 \<le> v" "v < 2 ^ versionBits ?h" and
    ll: "length ents' = length (es_entities st)" and
    other: "\<forall>j. 0 \<le> j \<and> j < int (length (es_entities st)) \<and> j \<noteq> idx \<longrightarrow>
                ents' ! nat j = es_entities st ! nat j" and
    nv: "handle_version ?h (ents' ! nat idx) = Inr ((v + 1) mod 2 ^ versionBits ?h)" and
    ni: "handle_index ?h (ents' ! nat idx) = Inr (free_slot st mod 2 ^ indexBits ?h)"
    by blast
  have so: "slot_of ?h e = idx" and vo: "version_of ?h e = v"
    using i v by (simp_all add: slot_of_def version_of_def)
  have md: "(v + 1) mod 2 ^ versionBits ?h = v + 1" using nowrap vo vr by simp
  have keep: "EntityStore_isAlive st1 x = Inr True"
    if "EntityStore_isAlive st x = Inr True" "slot_of ?h x \<noteq> slot_of ?h e" for x
  proof -
    from that(1) obtain j where
      j: "handle_index ?h x = Inr j" "j < append_index st" "array_get (es_entities st) j = x"
      by (auto simp add: EntityStore_isAlive_def ebind_def split: sum.splits)
    note jr = handle_index_range [OF f b(1) j(1)]
    have "j \<noteq> idx" using that(2) j(1) so by (simp add: slot_of_def)
    with other jr j(2) len have "ents' ! nat j = es_entities st ! nat j" by simp
    then show ?thesis
      using j jr len ll st1 by (simp add: EntityStore_isAlive_def ebind_def array_get_def)
  qed
  have cells: "\<forall>j \<in> fst ` set L. 0 \<le> j \<and> j < int (length (es_entities st)) \<longrightarrow>
                 es_entities st1 ! nat j = es_entities st ! nat j"
  proof (intro ballI impI)
    fix j assume jL: "j \<in> fst ` set L" and j0: "0 \<le> j \<and> j < int (length (es_entities st))"
    from jL fresh so have ne: "j \<noteq> idx" by blast
    with other j0 show "es_entities st1 ! nat j = es_entities st ! nat j"
      by (simp add: st1)
  qed
  have chL: "free_chain st1 fs L" if "free_chain st fs L" for fs
    by (rule free_chain_cong [OF _ _ cells that]) (simp_all add: st1 ll)
  have link: "free_chain st1 (free_slot st mod 2 ^ indexBits ?h) L"
  proof (cases L)
    case Nil
    then show ?thesis by simp
  next
    case (Cons a L')
    obtain i' v' where a: "a = (i', v')" by (cases a)
    from ch Cons a have "free_slot st = i'" "0 \<le> i'" "i' < 2 ^ indexBits ?h" by auto
    then have "free_slot st mod 2 ^ indexBits ?h = free_slot st" by simp
    with chL [OF ch] show ?thesis by simp
  qed
  have "free_chain st1 (free_slot st1) ((idx, v + 1) # L)"
    using ir vr len ll nv ni md link fresh so nowrap vo
    by (simp add: st1)
  with rm keep so vo show ?thesis
    by (auto simp add: st1 ll)
qed

lemma remove_all_chain:
  assumes b: "ib \<le> 53" "vb \<le> 53"
  shows "EntityHandleFactory ib vb = Inr (es_entityHandler st) \<Longrightarrow>
    append_index st \<le> int (length (es_entities st)) \<Longrightarrow>
    \<forall>e \<in> set ps. EntityStore_isAlive st e = Inr True \<and>
       version_of (es_entityHandler st) e + 1 < 2 ^ versionBits (es_entityHandler st) \<Longrightarrow>
    distinct (map (slot_of (es_entityHandler st)) ps) \<Longrightarrow>
    free_chain st (free_slot st) L \<Longrightarrow>
    \<forall>e \<in> set ps. slot_of (es_entityHandler st) e \<notin> fst ` set L \<Longrightarrow>
    \<exists>st1. remove_all ps st = Inr st1 \<and>
      es_entityHandler st1 = es_entityHandler st \<and>
      free_chain st1 (free_slot st1)
        (rev (map (\<lambda>e. (slot_of (es_entityHandler st) e, version_of (es_entityHandler st) e + 1)) ps) @ L)"
proof (induction ps arbitrary: st L)
  case Nil
  then show ?case by simp
next
  case (Cons e ps)
  let ?h = "es_entityHandler st"
  from Cons.prems(3) have alive: "EntityStore_isAlive st e = Inr True"
    and nowrap: "version_of ?h e + 1 < 2 ^ versionBits ?h" by simp_all
  from Cons.prems(6) have fresh: "slot_of ?h e \<notin> fst ` set L" by simp
  from push_chain [OF Cons.prems(1) b Cons.prems(2) alive nowrap Cons.prems(5) fresh]
  obtain st1 where
    rm: "EntityStore_remove st e = Inr st1" and
    h1: "es_entityHandler st1 = ?h" and
    a1: "append_index st1 = append_index st" and
    l1: "length (es_entities st1) = length (es_entities st)" and
    keep: "\<forall>x. EntityStore_isAlive st x = Inr True \<and> slot_of ?h x \<noteq> slot_of ?h e \<longrightarrow>
                EntityStore_isAlive st1 x = Inr True" and
    ch1: "free_chain st1 (free_slot st1) ((slot_of ?h e, version_of ?h e + 1) # L)"
    by blast
  have p1: "EntityHandleFactory ib vb = Inr (es_entityHandler st1)"
    using Cons.prems(1) h1 by simp
  have p2: "append_index st1 \<le> int (length (es_entities st1))"
    using Cons.prems(2) a1 l1 by simp
  have ne: "slot_of ?h x \<noteq> slot_of ?h e" if "x \<in> set ps" for x
  proof
    assume "slot_of ?h x = slot_of ?h e"
    with that have "slot_of ?h e \<in> slot_of ?h ` set ps" by (metis imageI)
    with Cons.prems(4) show False by simp
  qed
  have p3: "\<forall>x \<in> set ps. EntityStore_isAlive st1 x = Inr True \<and>
       version_of (es_entityHandler st1) x + 1 < 2 ^ versionBits (es_entityHandler st1)"
    using Cons.prems(3) keep ne h1 by simp
  have p4: "distinct (map (slot_of (es_entityHandler st1)) ps)"
    using Cons.prems(4) h1 by simp
  have p6: "\<forall>x \<in> set ps. slot_of (es_entityHandler st1) x
              \<notin> fst ` set ((slot_of ?h e, version_of ?h e + 1) # L)"
    using Cons.prems(6) ne h1 by simp
  from Cons.IH [OF p1 p2 p3 p4 ch1 p6] obtain st2 where
    "remove_all ps st1 = Inr st2" "es_entityHandler st2 = es_entityHandler st1"
    "free_chain st2 (free_slot st2)
        (rev (map (\<lambda>e. (slot_of (es_entityHandler st1) e,
                        version_of (es_entityHandler st1) e + 1)) ps)
         @ (slot_of ?h e, version_of ?h e + 1) # L)"
    by blast
  with rm h1 show ?case by (simp add: ebind_def)
qed

lemma map_made_rev:
  "map (\<lambda>(i, v). make_fields h i v) (rev (map (\<lambda>e. (slot_of h e, version_of h e + 1)) ps))
   = map (\<lambda>x. make_fields h (slot_of h x) (version_of h x + 1)) (rev ps)"
  by (simp add: rev_map comp_def)

section \<open>Claim C3: versions of recycled slots\<close>

text \<open>
  Claim C3 on the code. \<open>remove\<close> links the freed cell to the old head of the free list
  with \<open>make(free_slot, version + 1)\<close>; for the empty list the head is \<open>-1\<close>, which \<open>make\<close>
  masks to the index field \<open>INVALID_IDX\<close> (4095 for the Small codec). \<open>create\<close> pops the
  cell and takes that field as the new head, so after one recycling \<open>free_slot\<close> is 4095
  and not the \<open>-1\<close> that \<open>create\<close> tests for. On that store, "create one entity and
  remove it" fails: \<open>create()\<close> reads the cell 4095 outside the array and returns the
  handle 65520 (slot 4095, version 0) without storing it or allocating a slot; the handle
  is not alive and \<open>remove\<close> throws "Invalid Handle"; the next \<open>create()\<close> returns the
  handle 1 of slot 0 again, which is still live. Second, a Number codec of 32 bits makes
  ids as signed 32-bit Numbers and the typed array stores them unsigned: with the 4/28
  codec the ninth \<open>create()\<close> returns \<open>-2147483648\<close> for slot 8, the cell holds
  \<open>2147483648\<close>, the handle is not alive, and removing the nine created entities throws.
\<close>

theorem EntityStore_free_list_end:
  "(case recycled_once_scenario of
      Inl err \<Rightarrow> False
    | Inr (e1, st) \<Rightarrow>
        e1 = Num 1 \<and> EntityStore_isAlive st e1 = Inr True \<and>
        append_index st = 1 \<and> cap st = 4 \<and> free_slot st = 4095 \<and>
        (case create_n 1 st of
           Inl err \<Rightarrow> False
         | Inr (es, st') \<Rightarrow>
             es = [Num 65520] \<and>
             handle_index EntityHandleSmall (Num 65520) = Inr 4095 \<and>
             es_entities st' = es_entities st \<and> append_index st' = 1 \<and> free_slot st' = 0 \<and>
             EntityStore_isAlive st' (Num 65520) = Inr False \<and>
             remove_all es st' = Inl InvalidHandle \<and>
             (case EntityStore_create st' of
                Inl err \<Rightarrow> False
              | Inr (e3, st'') \<Rightarrow> e3 = e1 \<and> st'' = st'))) \<and>
   EntityHandleFactory 4 28 = Inr narrow_codec \<and>
   (case create_n 9 (EntityStore_new narrow_codec_options) of
      Inl err \<Rightarrow> False
    | Inr (es, st) \<Rightarrow>
        last es = Num (- 2147483648) \<and>
        handle_index narrow_codec (last es) = Inr 8 \<and>
        array_get (es_entities st) 8 = Num 2147483648 \<and>
        EntityStore_isAlive st (last es) = Inr False \<and>
        remove_all es st = Inl InvalidHandle)"
  by (simp add: recycled_once_scenario_def narrow_codec_options_def narrow_codec_def
      EntityHandleFactory_def model_defs cong: ebind_weak_cong)

subsection \<open>The version field wraps\<close>

text \<open>
  Apart from these defects, the version field wraps by design. With the Small codec (12/4) the
  store reaches, after fifteen rounds of \<open>create\<close> and \<open>remove\<close> and one more \<open>create\<close>,
  the state \<open>worn_store\<close> in which the live entity \<open>e = 15\<close> (slot 0, version 15) holds
  slot 0. After \<open>remove(e)\<close> the next \<open>create()\<close> issues the handle 0 at the same slot:
  version 0, which is not greater than 15 (and is the first handle the store ever issued).
\<close>

lemma EntityStore_version_wraps:
  "ebind (recycle_slot 15 (EntityStore_new small_codec_options)) EntityStore_create
     = Inr (Num 15, worn_store) \<and>
   EntityStore_isAlive worn_store (Num 15) = Inr True \<and>
   handle_index EntityHandleSmall (Num 15) = Inr 0 \<and>
   handle_version EntityHandleSmall (Num 15) = Inr 15 \<and>
   EntityStore_remove worn_store (Num 15) = Inr worn_store_removed \<and>
   EntityStore_isAlive worn_store_removed (Num 15) = Inr False \<and>
   EntityStore_create worn_store_removed = Inr (Num 0, worn_store_recreated) \<and>
   handle_index EntityHandleSmall (Num 0) = Inr 0 \<and>
   handle_version EntityHandleSmall (Num 0) = Inr 0"
  by (simp add: model_defs worn_store_def worn_store_removed_def worn_store_recreated_def
      cong: ebind_weak_cong)

subsection \<open>Recycling below the wrap\<close>

text \<open>
  What does hold of recycling. For every EntityStore whose codec was built by the factory with
  index and version fields of at most 53 bits, and whose issued slots are cells of its
  array (\<open>append_index \<le> length\<close>), and for every live entity \<open>e\<close>: \<open>remove(e)\<close> succeeds
  and \<open>isAlive(e)\<close> is false afterwards; if \<open>version(e) + 1\<close> fits the version field, the
  next \<open>create()\<close> returns the handle of \<open>e\<close>'s slot with version \<open>version(e) + 1\<close>; and
  after any sequence of calls, a \<open>create()\<close> that issues a handle at \<open>e\<close>'s slot returns a
  version strictly greater than \<open>version(e)\<close>, as long as \<open>version(e) + 1\<close> plus the number
  of removals at that slot in the sequence fits the version field. Moreover, removing
  any list of live entities at distinct slots, whose next versions fit the field, and
  creating as many entities again reuses exactly their slots, last removed first, each
  with its version incremented by one.
\<close>

lemma EntityStore_recycling:
  assumes f: "EntityHandleFactory ib vb = Inr (es_entityHandler st)"
    and b: "ib \<le> 53" "vb \<le> 53"
    and len: "append_index st \<le> int (length (es_entities st))"
  shows
    "(EntityStore_isAlive st e = Inr True \<longrightarrow>
        (\<exists>st1. EntityStore_remove st e = Inr st1 \<and>
           EntityStore_isAlive st1 e = Inr False \<and>
           (version_of (es_entityHandler st) e + 1 < 2 ^ versionBits (es_entityHandler st) \<longrightarrow>
              (\<exists>st2. EntityStore_create st1 =
                 Inr (make_fields (es_entityHandler st) (slot_of (es_entityHandler st) e)
                        (version_of (es_entityHandler st) e + 1), st2))) \<and>
           (\<forall>ops e' st3.
              version_of (es_entityHandler st) e + 1
                + int (recycles (es_entityHandler st) (slot_of (es_entityHandler st) e) ops)
                < 2 ^ versionBits (es_entityHandler st) \<and>
              EntityStore_create (es_run st1 ops) = Inr (e', st3) \<and>
              slot_of (es_entityHandler st) e' = slot_of (es_entityHandler st) e \<longrightarrow>
                version_of (es_entityHandler st) e < version_of (es_entityHandler st) e'))) \<and>
     ((\<forall>x \<in> set ps. EntityStore_isAlive st x = Inr True \<and>
          version_of (es_entityHandler st) x + 1 < 2 ^ versionBits (es_entityHandler st)) \<and>
       distinct (map (slot_of (es_entityHandler st)) ps) \<longrightarrow>
        (\<exists>st1 st2. remove_all ps st = Inr st1 \<and>
           create_n (length ps) st1 =
             Inr (map (\<lambda>x. make_fields (es_entityHandler st) (slot_of (es_entityHandler st) x)
                             (version_of (es_entityHandler st) x + 1)) (rev ps), st2)))"
proof (intro conjI impI)
  let ?h = "es_entityHandler st"
  assume alive: "EntityStore_isAlive st e = Inr True"
  from remove_live [OF f b len alive] obtain st1 idx v ents' where
    rm: "EntityStore_remove st e = Inr st1" and
    st1: "st1 = st\<lparr> es_entities := ents', free_slot := idx \<rparr>" and
    i: "handle_index ?h e = Inr idx" and v: "handle_version ?h e = Inr v" and
    ir: "0 \<le> idx" "idx < append_index st" "idx < 2 ^ indexBits ?h" and
    vr: "0 \<le> v" "v < 2 ^ versionBits ?h" and
    ll: "length ents' = length (es_entities st)" and
    nv: "handle_version ?h (ents' ! nat idx) = Inr ((v + 1) mod 2 ^ versionBits ?h)" and
    ni: "handle_index ?h (ents' ! nat idx) = Inr (free_slot st mod 2 ^ indexBits ?h)" and
    dead: "EntityStore_isAlive st1 e = Inr False"
    by blast
  have so: "slot_of ?h e = idx" and vo: "version_of ?h e = v"
    using i v by (simp_all add: slot_of_def version_of_def)
  have h1: "es_entityHandler st1 = ?h" by (simp add: st1)
  have f1: "EntityHandleFactory ib vb = Inr (es_entityHandler st1)" using f h1 by simp
  have il: "idx < int (length (es_entities st1))" using ir len ll by (simp add: st1)
  have inv0: "slot_version_in st1 idx (v + 1) (v + 1)" if "v + 1 < 2 ^ versionBits ?h"
    using that ir il nv vr by (simp add: slot_version_in_def st1)
  have "\<exists>st2. EntityStore_create st1 = Inr (make_fields ?h idx (v + 1), st2)"
    if nw: "v + 1 < 2 ^ versionBits ?h"
  proof -
    have ne: "free_slot st1 \<noteq> IDX_SENTINEL" using ir by (simp add: st1 IDX_SENTINEL_def)
    have ag: "array_get (es_entities st1) (free_slot st1) = ents' ! nat idx"
      using ir il by (simp add: st1 array_get_def)
    have ver: "handle_version (es_entityHandler st1) (array_get (es_entities st1) (free_slot st1))
               = Inr (v + 1)"
      using nv nw vr by (simp add: ag h1)
    have nx: "handle_index (es_entityHandler st1) (array_get (es_entities st1) (free_slot st1))
               = Inr (free_slot st mod 2 ^ indexBits ?h)"
      using ni by (simp add: ag h1)
    obtain w where "to_elem (es_kind st1) (make_fields (es_entityHandler st1) (free_slot st1) (v + 1)) = Inr w"
      using to_elem_make_es by blast
    then have "array_set (es_kind st1) (es_entities st1) (free_slot st1)
             (make_fields (es_entityHandler st1) (free_slot st1) (v + 1))
             = Inr ((es_entities st1)[nat (free_slot st1) := w])"
      using ir il by (simp add: array_set_in_range st1)
    from EntityStore_create_pop_InrI [OF ne ver nx this]
    show ?thesis by (auto simp add: st1)
  qed
  moreover have "version_of ?h e < version_of ?h e'"
    if hyp: "version_of ?h e + 1 + int (recycles ?h (slot_of ?h e) ops) < 2 ^ versionBits ?h \<and>
             EntityStore_create (es_run st1 ops) = Inr (e', st3) \<and>
             slot_of ?h e' = slot_of ?h e" for ops e' st3
  proof -
    let ?st2 = "es_run st1 ops"
    from hyp have bound: "v + 1 + int (recycles ?h idx ops) < 2 ^ versionBits ?h"
      and cr: "EntityStore_create ?st2 = Inr (e', st3)"
      and same: "slot_of ?h e' = idx" by (simp_all add: so vo)
    from bound have nw: "v + 1 < 2 ^ versionBits ?h" by linarith
    from slot_run [OF f1 b, of idx "v + 1" "v + 1" ops] inv0 [OF nw] bound h1
    have inv2: "slot_version_in ?st2 idx (v + 1) (v + 1 + int (recycles ?h idx ops))"
      and h2: "es_entityHandler ?st2 = ?h" by simp_all
    from inv2 obtain w where
      fs: "0 \<le> free_slot ?st2" "free_slot ?st2 < 2 ^ indexBits ?h" and
      i2: "idx < int (length (es_entities ?st2))" and
      w: "handle_version ?h (es_entities ?st2 ! nat idx) = Inr w" "v + 1 \<le> w"
      by (auto simp add: slot_version_in_def h2)
    have ne: "free_slot ?st2 \<noteq> IDX_SENTINEL" using fs by (simp add: IDX_SENTINEL_def)
    from EntityStore_create_pop_InrE [OF ne cr] obtain ver where
      ver: "handle_version ?h (array_get (es_entities ?st2) (free_slot ?st2)) = Inr ver" and
      e': "e' = make_fields ?h (free_slot ?st2) ver"
      by (auto simp add: h2)
    have "handle_index ?h e' = Inr (free_slot ?st2)"
      unfolding e' decode_make(1) [OF f b] using fs by simp
    with same have fi: "free_slot ?st2 = idx" by (simp add: slot_of_def)
    then have "array_get (es_entities ?st2) (free_slot ?st2) = es_entities ?st2 ! nat idx"
      using ir i2 by (simp add: array_get_def)
    with ver w have vw: "ver = w" by simp
    note wr = handle_version_range [OF f b(2) w(1)]
    have "handle_version ?h e' = Inr w"
      unfolding e' decode_make(2) [OF f b] vw using wr by simp
    then show ?thesis using w(2) vo by (simp add: version_of_def)
  qed
  ultimately show "\<exists>st1. EntityStore_remove st e = Inr st1 \<and>
           EntityStore_isAlive st1 e = Inr False \<and>
           (version_of ?h e + 1 < 2 ^ versionBits ?h \<longrightarrow>
              (\<exists>st2. EntityStore_create st1 =
                 Inr (make_fields ?h (slot_of ?h e) (version_of ?h e + 1), st2))) \<and>
           (\<forall>ops e' st3.
              version_of ?h e + 1 + int (recycles ?h (slot_of ?h e) ops) < 2 ^ versionBits ?h \<and>
              EntityStore_create (es_run st1 ops) = Inr (e', st3) \<and>
              slot_of ?h e' = slot_of ?h e \<longrightarrow>
                version_of ?h e < version_of ?h e')"
    using rm dead so vo by blast
next
  let ?h = "es_entityHandler st"
  assume h: "(\<forall>x \<in> set ps. EntityStore_isAlive st x = Inr True \<and>
          version_of ?h x + 1 < 2 ^ versionBits ?h) \<and>
       distinct (map (slot_of ?h) ps)"
  have c0: "free_chain st (free_slot st) []" by simp
  from remove_all_chain [OF b f len _ _ c0, of ps] h obtain st1 where
    ra: "remove_all ps st = Inr st1" and h1: "es_entityHandler st1 = ?h" and
    ch: "free_chain st1 (free_slot st1)
           (rev (map (\<lambda>e. (slot_of ?h e, version_of ?h e + 1)) ps))"
    by auto
  have f1: "EntityHandleFactory ib vb = Inr (es_entityHandler st1)" using f h1 by simp
  from create_n_chain [OF f1 b ch] obtain st2 where
    "create_n (length ps) st1 =
       Inr (map (\<lambda>(i, v). make_fields ?h i v)
              (rev (map (\<lambda>e. (slot_of ?h e, version_of ?h e + 1)) ps)), st2)"
    by (auto simp add: h1)
  with ra show "\<exists>st1 st2. remove_all ps st = Inr st1 \<and>
           create_n (length ps) st1 =
             Inr (map (\<lambda>x. make_fields ?h (slot_of ?h x) (version_of ?h x + 1)) (rev ps), st2)"
    by (auto simp add: map_made_rev)
qed

text \<open>
  The theorem at the store with the Small codec after three creations (handles 0, 16
  and 32): \<open>remove(16)\<close>, then \<open>create()\<close>, \<open>remove(17)\<close> and \<open>create()\<close> again gives the
  handle 18 of slot 1 with version 2; and removing all three entities and creating three
  again gives the handles 33, 17 and 1.
\<close>

lemma three_entities_facts:
  "create_n 3 (EntityStore_new small_codec_options) = Inr ([Num 0, Num 16, Num 32], three_entities_store) \<and>
   es_entityHandler three_entities_store = EntityHandleSmall \<and>
   append_index three_entities_store \<le> int (length (es_entities three_entities_store)) \<and>
   EntityStore_isAlive three_entities_store (Num 0) = Inr True \<and>
   EntityStore_isAlive three_entities_store (Num 16) = Inr True \<and>
   EntityStore_isAlive three_entities_store (Num 32) = Inr True \<and>
   slot_of EntityHandleSmall (Num 0) = 0 \<and> slot_of EntityHandleSmall (Num 16) = 1 \<and>
   slot_of EntityHandleSmall (Num 32) = 2 \<and> slot_of EntityHandleSmall (Num 18) = 1 \<and>
   version_of EntityHandleSmall (Num 0) = 0 \<and> version_of EntityHandleSmall (Num 16) = 0 \<and>
   version_of EntityHandleSmall (Num 32) = 0 \<and>
   handle_index EntityHandleSmall (Num 17) = Inr 1"
  by (simp add: model_defs three_entities_store_def slot_of_def version_of_def
      cong: ebind_weak_cong)

lemma three_entities_run:
  "\<exists>st1 st3. EntityStore_remove three_entities_store (Num 16) = Inr st1 \<and>
     EntityStore_create (es_run st1 [Create, Remove (Num 17)]) = Inr (Num 18, st3)"
  by (simp add: model_defs three_entities_store_def es_run_def cong: ebind_weak_cong)

lemma EntityStore_recycling_witness:
  "(case EntityStore_remove three_entities_store (Num 16) of
      Inl err \<Rightarrow> False
    | Inr st1 \<Rightarrow>
        EntityStore_isAlive st1 (Num 16) = Inr False \<and>
        (case EntityStore_create st1 of
           Inl err \<Rightarrow> False
         | Inr (e1, st2) \<Rightarrow> e1 = make_fields EntityHandleSmall 1 1) \<and>
        (case EntityStore_create (es_run st1 [Create, Remove (Num 17)]) of
           Inl err \<Rightarrow> False
         | Inr (e2, st3) \<Rightarrow>
             e2 = Num 18 \<and>
             version_of EntityHandleSmall (Num 16) < version_of EntityHandleSmall e2)) \<and>
   (case remove_all [Num 0, Num 16, Num 32] three_entities_store of
      Inl err \<Rightarrow> False
    | Inr st1 \<Rightarrow>
        (case create_n 3 st1 of
           Inl err \<Rightarrow> False
         | Inr (es, st2) \<Rightarrow>
             es = [make_fields EntityHandleSmall 2 1, make_fields EntityHandleSmall 1 1,
                   make_fields EntityHandleSmall 0 1]))"
proof -
  note t = three_entities_facts
  have f: "EntityHandleFactory 12 4 = Inr (es_entityHandler three_entities_store)"
    using t Small_factory by simp
  have len: "append_index three_entities_store \<le> int (length (es_entities three_entities_store))"
    using t by simp
  have h: "es_entityHandler three_entities_store = EntityHandleSmall" using t by simp
  have vb: "versionBits EntityHandleSmall = 4" by (simp add: EntityHandleSmall_def)
  have so: "slot_of EntityHandleSmall (Num 16) = 1" "version_of EntityHandleSmall (Num 16) = 0"
    using t by simp_all
  have alive: "EntityStore_isAlive three_entities_store (Num 16) = Inr True" using t by simp
  have all: "(\<forall>x \<in> set [Num 0, Num 16, Num 32].
                EntityStore_isAlive three_entities_store x = Inr True \<and>
                version_of EntityHandleSmall x + 1 < 2 ^ 4) \<and>
             distinct (map (slot_of EntityHandleSmall) [Num 0, Num 16, Num 32])"
    using t by simp
  have mk: "map (\<lambda>x. make_fields EntityHandleSmall (slot_of EntityHandleSmall x)
                        (version_of EntityHandleSmall x + 1)) (rev [Num 0, Num 16, Num 32])
            = [make_fields EntityHandleSmall 2 1, make_fields EntityHandleSmall 1 1,
               make_fields EntityHandleSmall 0 1]"
    using t by simp
  note rec = EntityStore_recycling [OF f _ _ len, of "Num 16" "[Num 0, Num 16, Num 32]",
      unfolded h vb so]
  have rec1: "\<exists>st1. EntityStore_remove three_entities_store (Num 16) = Inr st1 \<and>
           EntityStore_isAlive st1 (Num 16) = Inr False \<and>
           (0 + 1 < (2::int) ^ 4 \<longrightarrow>
              (\<exists>st2. EntityStore_create st1 = Inr (make_fields EntityHandleSmall 1 (0 + 1), st2))) \<and>
           (\<forall>ops e' st3.
              0 + 1 + int (recycles EntityHandleSmall 1 ops) < 2 ^ 4 \<and>
              EntityStore_create (es_run st1 ops) = Inr (e', st3) \<and>
              slot_of EntityHandleSmall e' = 1 \<longrightarrow>
                0 < version_of EntityHandleSmall e')"
    by (rule mp [OF conjunct1 [OF rec] alive]) simp_all
  have rec2: "\<exists>st1 st2. remove_all [Num 0, Num 16, Num 32] three_entities_store = Inr st1 \<and>
           create_n (length [Num 0, Num 16, Num 32]) st1 =
             Inr ([make_fields EntityHandleSmall 2 1, make_fields EntityHandleSmall 1 1,
                   make_fields EntityHandleSmall 0 1], st2)"
    unfolding mk [symmetric] by (rule mp [OF conjunct2 [OF rec] all]) simp_all
  from rec1 obtain st1 where
    rm: "EntityStore_remove three_entities_store (Num 16) = Inr st1" and
    dead: "EntityStore_isAlive st1 (Num 16) = Inr False" and
    nxt: "\<exists>st2. EntityStore_create st1 = Inr (make_fields EntityHandleSmall 1 (0 + 1), st2)" and
    gen: "\<forall>ops e' st3.
              0 + 1 + int (recycles EntityHandleSmall 1 ops) < 2 ^ 4 \<and>
              EntityStore_create (es_run st1 ops) = Inr (e', st3) \<and>
              slot_of EntityHandleSmall e' = 1 \<longrightarrow>
                0 < version_of EntityHandleSmall e'"
    by auto
  from three_entities_run rm obtain st3 where
    run: "EntityStore_create (es_run st1 [Create, Remove (Num 17)]) = Inr (Num 18, st3)"
    by auto
  have "0 + 1 + int (recycles EntityHandleSmall 1 [Create, Remove (Num 17)]) < 2 ^ 4"
    using t by simp
  with gen run t have "0 < version_of EntityHandleSmall (Num 18)" by blast
  with rm dead nxt run so have first: "(case EntityStore_remove three_entities_store (Num 16) of
      Inl err \<Rightarrow> False
    | Inr st1 \<Rightarrow>
        EntityStore_isAlive st1 (Num 16) = Inr False \<and>
        (case EntityStore_create st1 of
           Inl err \<Rightarrow> False
         | Inr (e1, st2) \<Rightarrow> e1 = make_fields EntityHandleSmall 1 1) \<and>
        (case EntityStore_create (es_run st1 [Create, Remove (Num 17)]) of
           Inl err \<Rightarrow> False
         | Inr (e2, st3) \<Rightarrow>
             e2 = Num 18 \<and>
             version_of EntityHandleSmall (Num 16) < version_of EntityHandleSmall e2))"
    by auto
  have l3: "length [Num 0, Num 16, Num 32] = (3::nat)" by simp
  from rec2 [unfolded l3] obtain s1 s2 where
    "remove_all [Num 0, Num 16, Num 32] three_entities_store = Inr s1"
    "create_n 3 s1 = Inr ([make_fields EntityHandleSmall 2 1, make_fields EntityHandleSmall 1 1,
                   make_fields EntityHandleSmall 0 1], s2)"
    by blast
  with first show ?thesis by (simp del: remove_all.simps create_n.simps)
qed

section \<open>Sparse cells\<close>

lemma js_and_pageSize:
  assumes "pageSize_ok s"
  shows "js_and k (pageSize s - 1) = k mod pageSize s"
proof -
  from assms obtain m where m: "m \<le> 31" "pageSize s = 2 ^ m"
    by (auto simp add: pageSize_ok_def)
  have "pageSize s - 1 = mask m" using m by (simp add: mask_eq_exp_minus_1)
  then have "js_and k (pageSize s - 1) = toInt32 k AND mask m"
    using m by (simp add: js_and_def toInt32_mask)
  also have "\<dots> = take_bit m k" using m by (simp add: toInt32_and_mask)
  finally show ?thesis using m by (simp add: take_bit_eq_mod)
qed

lemma pageSize_pos: "pageSize_ok s \<Longrightarrow> 0 < pageSize s"
  by (auto simp add: pageSize_ok_def)

lemma addr_inj:
  assumes "pageSize_ok s" and "k div pageSize s = k' div pageSize s"
    and "js_and k (pageSize s - 1) = js_and k' (pageSize s - 1)"
  shows "k = k'"
proof -
  have "k mod pageSize s = k' mod pageSize s"
    using assms by (simp add: js_and_pageSize)
  with assms(2) show ?thesis by (metis mult_div_mod_eq)
qed

lemma cell_sparse_set:
  assumes ok: "pageSize_ok s"
    and set: "sparse_set (sparse s) (k div pageSize s) (js_and k (pageSize s - 1)) v = Inr sp"
    and s': "pageSize s' = pageSize s" "sparse s' = sp"
  shows "cell s' k' = (if k' = k then Some v else cell s k')"
proof -
  from set obtain pg where pg: "sparse s (k div pageSize s) = Some pg"
    and sp: "sp = (sparse s)(k div pageSize s \<mapsto> pg(js_and k (pageSize s - 1) \<mapsto> v))"
    by (auto simp add: sparse_set_def split: option.splits)
  have c: "cell s' k' = (case sp (k' div pageSize s) of None \<Rightarrow> None
                         | Some page \<Rightarrow> page (js_and k' (pageSize s - 1)))"
    unfolding cell_def s' by (rule refl)
  have cs: "cell s k' = (case sparse s (k' div pageSize s) of None \<Rightarrow> None
                         | Some page \<Rightarrow> page (js_and k' (pageSize s - 1)))"
    by (simp add: cell_def)
  show ?thesis
  proof (cases "k' = k")
    case True
    then show ?thesis using c by (simp add: sp)
  next
    case False
    show ?thesis
    proof (cases "k' div pageSize s = k div pageSize s")
      case True
      with False addr_inj [OF ok, of k' k]
      have "js_and k' (pageSize s - 1) \<noteq> js_and k (pageSize s - 1)" by auto
      with True pg False show ?thesis by (simp add: c cs sp)
    next
      case F2: False
      with False show ?thesis by (simp add: c cs sp)
    qed
  qed
qed

lemma sparse_set_defined:
  assumes "cell s k = Some v0"
  shows "\<exists>sp. sparse_set (sparse s) (k div pageSize s) (js_and k (pageSize s - 1)) v = Inr sp"
  using assms by (auto simp add: cell_def sparse_set_def split: option.splits)

lemma pageIndex_Inr: "handle_index (entityHandler s) e = Inr k \<Longrightarrow> pageIndex s e = Inr (k div pageSize s)"
  by (simp add: pageIndex_def ebind_def)

lemma pageOffset_Inr: "handle_index (entityHandler s) e = Inr k \<Longrightarrow> pageOffset s e = Inr (js_and k (pageSize s - 1))"
  by (simp add: pageOffset_def ebind_def)

lemma SparseSet_contains_cell:
  assumes "handle_index (entityHandler s) e = Inr k"
  shows "SparseSet_contains s e =
           Inr (case cell s k of None \<Rightarrow> False
                | Some d \<Rightarrow> d \<noteq> TOMBSTONE \<and> d < slength s)"
  using assms
  by (simp add: SparseSet_contains_def pageIndex_Inr pageOffset_Inr ebind_def cell_def
      split: option.splits)

lemma SparseSet_index_cell:
  assumes "handle_index (entityHandler s) e = Inr k"
  shows "SparseSet_index s e =
           Inr (case cell s k of None \<Rightarrow> FAILED_OPERATION
                | Some d \<Rightarrow> if d \<noteq> TOMBSTONE \<and> d < slength s then d else FAILED_OPERATION)"
  using assms
  by (simp add: SparseSet_index_def pageIndex_Inr pageOffset_Inr ebind_def cell_def
      split: option.splits)

lemma SparseSet_contains_InrD:
  assumes "SparseSet_contains s e = Inr True"
  shows "\<exists>k d. handle_index (entityHandler s) e = Inr k \<and> cell s k = Some d \<and>
           d \<noteq> TOMBSTONE \<and> d < slength s"
proof -
  from assms obtain k where k: "handle_index (entityHandler s) e = Inr k"
    by (auto simp add: SparseSet_contains_def pageIndex_def ebind_def split: sum.splits)
  with assms show ?thesis
    by (auto simp add: SparseSet_contains_cell split: option.splits)
qed

section \<open>SparseSet.remove on a set that satisfies the invariants\<close>

lemma SparseSet_invD:
  assumes "SparseSet_inv s"
  shows "pageSize_ok s" "0 \<le> slength s" "slength s \<le> int (length (dense s))"
    "\<And>i. 0 \<le> i \<Longrightarrow> i < slength s \<Longrightarrow>
       \<exists>k. handle_index (entityHandler s) (dense s ! nat i) = Inr k \<and> cell s k = Some i"
    "\<And>k v. cell s k = Some v \<Longrightarrow> -1 \<le> v"
    "\<And>k v. cell s k = Some v \<Longrightarrow> 0 \<le> v \<Longrightarrow> v < slength s \<Longrightarrow>
       handle_index (entityHandler s) (dense s ! nat v) = Inr k"
    "\<And>x. x \<in> set (dense s) \<Longrightarrow> to_elem (dense_kind s) x = Inr x"
  using assms unfolding SparseSet_inv_def by blast+

lemma SparseSet_remove_eq:
  assumes "handle_index (entityHandler s) e = Inr k"
    and "cell s k = Some i" and "i \<noteq> TOMBSTONE" and "slength s \<noteq> 0"
  shows "SparseSet_remove s e =
     ebind
       (if i \<noteq> slength s - 1
        then
          ebind (array_set (dense_kind s) (dense s) i (array_get (dense s) (slength s - 1))) (\<lambda>d.
            ebind (pageIndex s (array_get (dense s) (slength s - 1))) (\<lambda>lastPageIndex.
              ebind (pageOffset s (array_get (dense s) (slength s - 1))) (\<lambda>lastPageOffset.
                ebind (sparse_set (sparse s) lastPageIndex lastPageOffset i) (\<lambda>sp.
                  Inr (s\<lparr> sparse := sp, dense := d \<rparr>)))))
        else Inr s)
       (\<lambda>s1.
          ebind (sparse_set (sparse s1) (k div pageSize s) (js_and k (pageSize s - 1)) TOMBSTONE) (\<lambda>sp.
            Inr (SUCCESS_OPERATION, s1\<lparr> sparse := sp, slength := slength s1 - 1 \<rparr>)))"
proof -
  from assms(2) obtain page where
    "sparse s (k div pageSize s) = Some page" "page (js_and k (pageSize s - 1)) = Some i"
    by (auto simp add: cell_def split: option.splits)
  with assms show ?thesis
    unfolding SparseSet_remove_def pageIndex_Inr [OF assms(1)] pageOffset_Inr [OF assms(1)]
    by (simp add: ebind_Inr Let_def)
qed

lemma SparseSet_remove_contained:
  assumes inv: "SparseSet_inv s" and c: "SparseSet_contains s e = Inr True"
  shows "\<exists>k i kl s'.
     handle_index (entityHandler s) e = Inr k \<and> cell s k = Some i \<and> 0 \<le> i \<and> i < slength s \<and>
     handle_index (entityHandler s) (dense s ! nat (slength s - 1)) = Inr kl \<and>
     cell s kl = Some (slength s - 1) \<and>
     SparseSet_remove s e = Inr (SUCCESS_OPERATION, s') \<and>
     slength s' = slength s - 1 \<and>
     dense s' = (dense s)[nat i := dense s ! nat (slength s - 1)] \<and>
     pageSize s' = pageSize s \<and> entityHandler s' = entityHandler s \<and>
     typedArray s' = typedArray s \<and>
     (\<forall>k'. cell s' k' = (if k' = k then Some TOMBSTONE else if k' = kl then Some i else cell s k'))"
proof -
  let ?h = "entityHandler s" and ?last = "slength s - 1"
  note I = SparseSet_invD [OF inv]
  from SparseSet_contains_InrD [OF c] obtain k i where
    k: "handle_index ?h e = Inr k" and ci: "cell s k = Some i" and
    nt: "i \<noteq> TOMBSTONE" and il: "i < slength s"
    by blast
  from I(5) [OF ci] nt have i0: "0 \<le> i" by (simp add: TOMBSTONE_def)
  have l0: "0 \<le> ?last" "?last < slength s" using i0 il by simp_all
  from I(4) [OF l0] obtain kl where
    kl: "handle_index ?h (dense s ! nat ?last) = Inr kl" and cl: "cell s kl = Some ?last"
    by blast
  have ne: "slength s \<noteq> 0" using i0 il by simp
  have ag: "array_get (dense s) ?last = dense s ! nat ?last"
    using l0 I(3) by (simp add: array_get_def)
  have mem: "dense s ! nat ?last \<in> set (dense s)"
    using l0 I(3) by (simp add: nth_mem)
  note eq = SparseSet_remove_eq [OF k ci nt ne, unfolded ag]
  show ?thesis
  proof (cases "i = ?last")
    case True
    then have kk: "kl = k" using I(6) [OF ci i0 il] kl by simp
    from sparse_set_defined [OF ci] obtain sp where
      sp: "sparse_set (sparse s) (k div pageSize s) (js_and k (pageSize s - 1)) TOMBSTONE = Inr sp"
      by blast
    let ?s' = "s\<lparr> sparse := sp, slength := slength s - 1 \<rparr>"
    have rm: "SparseSet_remove s e = Inr (SUCCESS_OPERATION, ?s')"
      unfolding eq using True sp by (simp add: ebind_Inr)
    have cells: "cell ?s' k' = (if k' = k then Some TOMBSTONE else cell s k')" for k'
      by (rule cell_sparse_set [OF I(1) sp]) simp_all
    have "dense ?s' = (dense s)[nat i := dense s ! nat ?last]" using True by simp
    with rm cells k ci i0 il kl cl kk show ?thesis
      by (intro exI [of _ k] exI [of _ i] exI [of _ kl] exI [of _ ?s']) simp
  next
    case False
    then have kne: "kl \<noteq> k" using ci cl by auto
    have te: "to_elem (dense_kind s) (dense s ! nat ?last) = Inr (dense s ! nat ?last)"
      by (rule I(7) [OF mem])
    have as: "array_set (dense_kind s) (dense s) i (dense s ! nat ?last)
              = Inr ((dense s)[nat i := dense s ! nat ?last])"
      using te i0 il I(3) by (simp add: array_set_in_range)
    from sparse_set_defined [OF cl] obtain sp1 where
      sp1: "sparse_set (sparse s) (kl div pageSize s) (js_and kl (pageSize s - 1)) i = Inr sp1"
      by blast
    let ?s1 = "s\<lparr> sparse := sp1, dense := (dense s)[nat i := dense s ! nat ?last] \<rparr>"
    have c1: "cell ?s1 k' = (if k' = kl then Some i else cell s k')" for k'
      by (rule cell_sparse_set [OF I(1) sp1]) simp_all
    then have "cell ?s1 k = Some i" using kne ci by simp
    from sparse_set_defined [OF this] obtain sp2 where
      sp2: "sparse_set (sparse ?s1) (k div pageSize s) (js_and k (pageSize s - 1)) TOMBSTONE = Inr sp2"
      by auto
    let ?s' = "?s1\<lparr> sparse := sp2, slength := slength ?s1 - 1 \<rparr>"
    have ok1: "pageSize_ok ?s1" using I(1) by (simp add: pageSize_ok_def)
    have c2: "cell ?s' k' = (if k' = k then Some TOMBSTONE else cell ?s1 k')" for k'
      by (rule cell_sparse_set [OF ok1, of k _ sp2]) (use sp2 in simp_all)
    have rm: "SparseSet_remove s e = Inr (SUCCESS_OPERATION, ?s')"
      unfolding eq using False as sp1 sp2
      by (simp add: ebind_Inr pageIndex_Inr [OF kl] pageOffset_Inr [OF kl])
    have cells: "\<forall>k'. cell ?s' k' = (if k' = k then Some TOMBSTONE else if k' = kl then Some i else cell s k')"
      using c1 c2 by simp
    from rm cells k ci i0 il kl cl show ?thesis
      by (intro exI [of _ k] exI [of _ i] exI [of _ kl] exI [of _ ?s']) simp
  qed
qed

lemma SparseSet_remove_inv:
  assumes inv: "SparseSet_inv s"
    and k: "handle_index (entityHandler s) e = Inr k" and ci: "cell s k = Some i"
    and i: "0 \<le> i" "i < slength s"
    and kl: "handle_index (entityHandler s) (dense s ! nat (slength s - 1)) = Inr kl"
    and cl: "cell s kl = Some (slength s - 1)"
    and s': "slength s' = slength s - 1"
      "dense s' = (dense s)[nat i := dense s ! nat (slength s - 1)]"
      "pageSize s' = pageSize s" "entityHandler s' = entityHandler s"
      "typedArray s' = typedArray s"
      "\<forall>k'. cell s' k' = (if k' = k then Some TOMBSTONE else if k' = kl then Some i else cell s k')"
  shows "SparseSet_inv s'"
proof -
  let ?h = "entityHandler s" and ?last = "slength s - 1"
  note I = SparseSet_invD [OF inv]
  have il: "nat i < length (dense s)" and ll: "nat ?last < length (dense s)"
    using i I(3) by simp_all
  have ki: "handle_index ?h (dense s ! nat i) = Inr k" by (rule I(6) [OF ci i])
  have dn: "dense s' ! nat j = (if j = i then dense s ! nat ?last else dense s ! nat j)"
    if "0 \<le> j" "j < slength s" for j
    using that i I(3) by (auto simp add: s'(2) nth_list_update)
  have p1: "pageSize_ok s'" using I(1) by (simp add: pageSize_ok_def s'(3))
  have p2: "0 \<le> slength s'" "slength s' \<le> int (length (dense s'))"
    using i I(3) by (simp_all add: s')
  have p3: "\<exists>k'. handle_index (entityHandler s') (dense s' ! nat j) = Inr k' \<and> cell s' k' = Some j"
    if j: "0 \<le> j" "j < slength s'" for j
  proof (cases "j = i")
    case True
    with j have "i \<noteq> ?last" by (simp add: s'(1))
    then have "kl \<noteq> k" using ci cl by auto
    moreover have "dense s' ! nat j = dense s ! nat ?last"
      using True i by (simp add: dn)
    ultimately show ?thesis
      using True kl by (intro exI [of _ kl]) (simp add: s'(4,6))
  next
    case False
    from j have j2: "j < slength s" "j \<noteq> ?last" by (simp_all add: s'(1))
    from I(4) [OF j(1) j2(1)] obtain kj where
      kj: "handle_index ?h (dense s ! nat j) = Inr kj" "cell s kj = Some j" by blast
    have "kj \<noteq> k" using kj(2) ci False by auto
    moreover have "kj \<noteq> kl" using kj(2) cl j2(2) by auto
    moreover have "dense s' ! nat j = dense s ! nat j"
      using False j(1) j2(1) by (simp add: dn)
    ultimately show ?thesis
      using kj by (intro exI [of _ kj]) (simp add: s'(4,6))
  qed
  have p4: "-1 \<le> v \<and> (0 \<le> v \<and> v < slength s' \<longrightarrow>
               handle_index (entityHandler s') (dense s' ! nat v) = Inr k')"
    if c: "cell s' k' = Some v" for k' v
  proof (cases "k' = k")
    case True
    with c show ?thesis by (simp add: s'(6) TOMBSTONE_def)
  next
    case nk: False
    show ?thesis
    proof (cases "k' = kl")
      case True
      with c nk have "v = i" by (simp add: s'(6))
      moreover have "dense s' ! nat i = dense s ! nat ?last" using i by (simp add: dn)
      ultimately show ?thesis using True kl i by (simp add: s'(4))
    next
      case False
      with c nk have cs: "cell s k' = Some v" by (simp add: s'(6))
      have "handle_index ?h (dense s' ! nat v) = Inr k'" if v: "0 \<le> v" "v < slength s'"
      proof -
        from v have v2: "v < slength s" by (simp add: s'(1))
        from I(6) [OF cs v(1) v2] have kv: "handle_index ?h (dense s ! nat v) = Inr k'" .
        have "v \<noteq> i" using kv ki nk by auto
        then have "dense s' ! nat v = dense s ! nat v" using v(1) v2 by (simp add: dn)
        with kv show ?thesis by simp
      qed
      with I(5) [OF cs] show ?thesis by (simp add: s'(4))
    qed
  qed
  have "set (dense s') \<subseteq> set (dense s)"
    unfolding s'(2) using ll by (intro set_update_subsetI) (simp_all add: nth_mem)
  then have p5: "\<forall>x \<in> set (dense s'). to_elem (dense_kind s') x = Inr x"
    using I(7) by (auto simp add: dense_kind_def s'(5))
  show ?thesis
    unfolding SparseSet_inv_def using p1 p2 p3 p4 p5 by blast
qed

section \<open>ComponentStore.remove on a store that satisfies the invariants\<close>

lemma comp_get_set:
  "0 \<le> i \<Longrightarrow> i < int (length xs) \<Longrightarrow>
     comp_get (comp_set xs i v) m = (if m = i then v else comp_get xs m)"
  by (auto simp add: comp_get_def comp_set_def nth_list_update)

lemma length_comp_set:
  "0 \<le> i \<Longrightarrow> i < int (length xs) \<Longrightarrow> length (comp_set xs i v) = length xs"
  by (simp add: comp_set_def)

lemma SparseSet_index_InrD:
  assumes "SparseSet_index s x = Inr j" and "j \<noteq> FAILED_OPERATION"
  shows "\<exists>k. handle_index (entityHandler s) x = Inr k \<and> cell s k = Some j \<and>
           j \<noteq> TOMBSTONE \<and> j < slength s"
proof -
  from assms(1) obtain k where k: "handle_index (entityHandler s) x = Inr k"
    by (auto simp add: SparseSet_index_def pageIndex_def ebind_def split: sum.splits)
  with assms show ?thesis
    by (auto simp add: SparseSet_index_cell split: option.splits if_splits)
qed

lemma ComponentStore_remove_contained:
  assumes inv: "ComponentStore_inv st" and c: "ComponentStore_contains st e = Inr True"
  shows "\<exists>st' idx.
     SparseSet_index (cs_set st) e = Inr idx \<and> 0 \<le> idx \<and> idx < ComponentStore_len st \<and>
     ComponentStore_remove st e = Inr (SUCCESS_OPERATION, st') \<and>
     ComponentStore_len st' = ComponentStore_len st - 1 \<and>
     ComponentStore_contains st' e = Inr False \<and>
     ComponentStore_inv st' \<and>
     (\<forall>x j. SparseSet_index (cs_set st) x = Inr j \<and> j \<noteq> FAILED_OPERATION \<and>
            handle_index (entityHandler (cs_set st)) x \<noteq> handle_index (entityHandler (cs_set st)) e \<longrightarrow>
        SparseSet_index (cs_set st') x = Inr (if j = ComponentStore_len st - 1 then idx else j) \<and>
        array_get (dense (cs_set st')) (if j = ComponentStore_len st - 1 then idx else j)
          = array_get (dense (cs_set st)) j \<and>
        (\<not> isEmptyComp st \<longrightarrow>
           comp_get (cs_components st') (if j = ComponentStore_len st - 1 then idx else j)
             = comp_get (cs_components st) j)) \<and>
     (\<not> isEmptyComp st \<longrightarrow> comp_get (cs_components st') (ComponentStore_len st - 1) = None)"
proof -
  let ?s = "cs_set st"
  let ?h = "entityHandler ?s" and ?n = "slength ?s" and ?last = "slength ?s - 1"
  from inv have sinv: "SparseSet_inv ?s"
    and clen: "\<not> isEmptyComp st \<longrightarrow> ?n \<le> int (length (cs_components st))"
    by (simp_all add: ComponentStore_inv_def)
  note I = SparseSet_invD [OF sinv]
  from c have c': "SparseSet_contains ?s e = Inr True" by (simp add: ComponentStore_contains_def)
  from SparseSet_remove_contained [OF sinv c'] obtain k i kl s' where
    k: "handle_index ?h e = Inr k" and ci: "cell ?s k = Some i" and i: "0 \<le> i" "i < ?n" and
    kl: "handle_index ?h (dense ?s ! nat ?last) = Inr kl" and cl: "cell ?s kl = Some ?last" and
    rm: "SparseSet_remove ?s e = Inr (SUCCESS_OPERATION, s')" and
    s': "slength s' = ?n - 1" "dense s' = (dense ?s)[nat i := dense ?s ! nat ?last]"
      "pageSize s' = pageSize ?s" "entityHandler s' = ?h" "typedArray s' = typedArray ?s"
      "\<forall>k'. cell s' k' = (if k' = k then Some TOMBSTONE else if k' = kl then Some i else cell ?s k')"
    by blast
  have sinv': "SparseSet_inv s'"
    by (rule SparseSet_remove_inv [OF sinv k ci i kl cl s'])
  have ix: "SparseSet_index ?s e = Inr i"
    using k ci i by (simp add: SparseSet_index_cell TOMBSTONE_def)
  have inf: "i \<noteq> FAILED_OPERATION" using i by (simp add: FAILED_OPERATION_def)
  define comps where "comps =
               (if \<not> isEmptyComp st
                then comp_set (if ?last \<noteq> i
                               then comp_set (cs_components st) i (comp_get (cs_components st) ?last)
                               else cs_components st) ?last None
                else cs_components st)"
  let ?st' = "st\<lparr> cs_set := s', cs_components := comps \<rparr>"
  have rmc: "ComponentStore_remove st e = Inr (SUCCESS_OPERATION, ?st')"
    unfolding ComponentStore_remove_def ix
    using inf rm by (simp add: ebind_Inr Let_def SparseSet_len_def comps_def)
  have cg: "comp_get comps m =
              (if m = ?last then None else if m = i then comp_get (cs_components st) ?last
               else comp_get (cs_components st) m)"
    if "\<not> isEmptyComp st" for m
    using that clen i by (simp add: comps_def comp_get_set length_comp_set)
  have cl': "length comps = length (cs_components st)"
    using clen i by (auto simp add: comps_def length_comp_set)
  have dead: "SparseSet_contains s' e = Inr False"
    using k s'(6) by (simp add: SparseSet_contains_cell [of s' e k] s'(4))
  have cinv': "ComponentStore_inv ?st'"
    using sinv' clen cl' s'(1) by (auto simp add: ComponentStore_inv_def)
  have others: "SparseSet_index s' x = Inr (if j = ?last then i else j) \<and>
        array_get (dense s') (if j = ?last then i else j) = array_get (dense ?s) j \<and>
        (\<not> isEmptyComp st \<longrightarrow>
           comp_get comps (if j = ?last then i else j) = comp_get (cs_components st) j)"
    if x: "SparseSet_index ?s x = Inr j" "j \<noteq> FAILED_OPERATION"
      "handle_index ?h x \<noteq> handle_index ?h e" for x j
  proof -
    from SparseSet_index_InrD [OF x(1,2)] obtain kx where
      kx: "handle_index ?h x = Inr kx" and cx: "cell ?s kx = Some j" and
      jn: "j \<noteq> TOMBSTONE" "j < ?n"
      by blast
    from I(5) [OF cx] jn have j0: "0 \<le> j" by (simp add: TOMBSTONE_def)
    have kne: "kx \<noteq> k" using x(3) kx k by simp
    have kj: "handle_index ?h (dense ?s ! nat j) = Inr kx" by (rule I(6) [OF cx j0 jn(2)])
    have ki: "handle_index ?h (dense ?s ! nat i) = Inr k" by (rule I(6) [OF ci i])
    have ji: "j \<noteq> i" using kj ki kne by auto
    have jl: "j = ?last \<longleftrightarrow> kx = kl" using kj kl cx cl by auto
    have il: "i \<noteq> ?last" if "kx = kl" using that ki kl kne by auto
    have dl: "nat i < length (dense ?s)" "nat j < length (dense ?s)" using i j0 jn I(3) by simp_all
    show ?thesis
    proof (cases "j = ?last")
      case True
      with jl have kk: "kx = kl" by simp
      have "SparseSet_index s' x = Inr i"
        using kx kk kne s'(6) i il [OF kk]
        by (simp add: SparseSet_index_cell [of s' x kx] s'(1,4) TOMBSTONE_def)
      moreover have "array_get (dense s') i = array_get (dense ?s) j"
        using True i I(3) by (simp add: array_get_def s'(2))
      moreover have "comp_get comps i = comp_get (cs_components st) j" if "\<not> isEmptyComp st"
        using cg [OF that, of i] il [OF kk] True by simp
      ultimately show ?thesis using True by simp
    next
      case False
      with jl have kk: "kx \<noteq> kl" by simp
      have "SparseSet_index s' x = Inr j"
        using kx kk kne s'(6) cx jn j0 False
        by (simp add: SparseSet_index_cell [of s' x kx] s'(1,4))
      moreover have "array_get (dense s') j = array_get (dense ?s) j"
        using ji j0 jn i I(3) by (simp add: array_get_def s'(2) nth_list_update)
      moreover have "comp_get comps j = comp_get (cs_components st) j" if "\<not> isEmptyComp st"
        using cg [OF that, of j] False ji by simp
      ultimately show ?thesis using False by simp
    qed
  qed
  have f3: "i < ComponentStore_len st"
    using i by (simp add: ComponentStore_len_def SparseSet_len_def)
  have f5: "ComponentStore_len ?st' = ComponentStore_len st - 1"
    using s'(1) by (simp add: ComponentStore_len_def SparseSet_len_def)
  have f6: "ComponentStore_contains ?st' e = Inr False"
    using dead by (simp add: ComponentStore_contains_def)
  have f8: "\<forall>x j. SparseSet_index (cs_set st) x = Inr j \<and> j \<noteq> FAILED_OPERATION \<and>
            handle_index (entityHandler (cs_set st)) x \<noteq> handle_index (entityHandler (cs_set st)) e \<longrightarrow>
        SparseSet_index (cs_set ?st') x = Inr (if j = ComponentStore_len st - 1 then i else j) \<and>
        array_get (dense (cs_set ?st')) (if j = ComponentStore_len st - 1 then i else j)
          = array_get (dense (cs_set st)) j \<and>
        (\<not> isEmptyComp st \<longrightarrow>
           comp_get (cs_components ?st') (if j = ComponentStore_len st - 1 then i else j)
             = comp_get (cs_components st) j)"
  proof (intro allI impI)
    fix x j
    assume "SparseSet_index (cs_set st) x = Inr j \<and> j \<noteq> FAILED_OPERATION \<and>
            handle_index (entityHandler (cs_set st)) x \<noteq> handle_index (entityHandler (cs_set st)) e"
    then have "SparseSet_index ?s x = Inr j" "j \<noteq> FAILED_OPERATION"
      "handle_index ?h x \<noteq> handle_index ?h e" by simp_all
    from others [OF this]
    show "SparseSet_index (cs_set ?st') x = Inr (if j = ComponentStore_len st - 1 then i else j) \<and>
        array_get (dense (cs_set ?st')) (if j = ComponentStore_len st - 1 then i else j)
          = array_get (dense (cs_set st)) j \<and>
        (\<not> isEmptyComp st \<longrightarrow>
           comp_get (cs_components ?st') (if j = ComponentStore_len st - 1 then i else j)
             = comp_get (cs_components st) j)"
      unfolding ComponentStore_len_def SparseSet_len_def by simp
  qed
  have f9: "\<not> isEmptyComp st \<longrightarrow> comp_get (cs_components ?st') (ComponentStore_len st - 1) = None"
    using cg [of ?last] by (simp add: ComponentStore_len_def SparseSet_len_def)
  show ?thesis
    using ix i(1) f3 rmc f5 f6 cinv' f8 f9 by blast
qed

section \<open>Swap-remove coherence of the component store\<close>

lemma abd_scenario_eval: "abd_scenario = Inr abd_store"
  by (simp add: abd_scenario_def abd_store_def abd_set_def model_defs cong: ebind_weak_cong)

lemma abd_set_inv: "SparseSet_inv abd_set"
proof -
  let ?s = "abd_set"
  have ok: "pageSize_ok ?s"
    unfolding pageSize_ok_def by (intro exI [of _ 7]) (simp add: abd_set_def)
  have ix: "handle_index (entityHandler ?s) (dense ?s ! nat i) = Inr i \<and> cell ?s i = Some i"
    if "0 \<le> i" "i < 3" for i
  proof -
    from that have "i = 0 \<or> i = 1 \<or> i = 2" by auto
    then show ?thesis
      by (auto simp add: abd_set_def cell_def model_defs)
  qed
  have cells: "k = v \<and> 0 \<le> v \<and> v < 3" if "cell ?s k = Some v" for k v
  proof -
    from that have d: "k div 128 = 0" and m: "[0 \<mapsto> 0, 1 \<mapsto> 1, 2 \<mapsto> 2] (k mod 128) = Some v"
      unfolding cell_def js_and_pageSize [OF ok]
      by (auto simp add: abd_set_def split: if_splits option.splits)
    from d have "k mod 128 = k" by (metis add.left_neutral mult_div_mod_eq mult_zero_right)
    with m show ?thesis by (auto split: if_splits)
  qed
  show ?thesis
    unfolding SparseSet_inv_def
  proof (intro conjI allI impI ballI)
    show "pageSize_ok ?s" by (rule ok)
    show "0 \<le> slength ?s" "slength ?s \<le> int (length (dense ?s))"
      by (simp_all add: abd_set_def)
  next
    fix i assume "0 \<le> i \<and> i < slength ?s"
    then have "0 \<le> i" "i < 3" by (simp_all add: abd_set_def)
    from ix [OF this]
    show "\<exists>k. handle_index (entityHandler ?s) (dense ?s ! nat i) = Inr k \<and> cell ?s k = Some i"
      by blast
  next
    fix k v assume c: "cell ?s k = Some v"
    from cells [OF c] show "-1 \<le> v" by simp
    assume "0 \<le> v \<and> v < slength ?s"
    with cells [OF c] ix [of v]
    show "handle_index (entityHandler ?s) (dense ?s ! nat v) = Inr k" by simp
  next
    fix x assume "x \<in> set (dense ?s)"
    then show "to_elem (dense_kind ?s) x = Inr x"
      by (auto simp add: abd_set_def dense_kind_def toUint32_def)
  qed
qed

lemma abd_store_inv: "ComponentStore_inv abd_store"
  using abd_set_inv
  by (simp add: ComponentStore_inv_def abd_store_def) (simp add: abd_set_def)

lemma abd_remove_eval:
  "\<exists>st'. ComponentStore_remove abd_store (Num 4096) = Inr (SUCCESS_OPERATION, st') \<and>
     ComponentStore_len st' = 2 \<and>
     take 2 (ComponentStore_data st') = [Num 0, Num 8192] \<and>
     take 2 (cs_components st') = [Some 1, Some 3] \<and>
     ComponentStore_get st' (Num 0) = Inr (Some 1) \<and>
     ComponentStore_get st' (Num 8192) = Inr (Some 3) \<and>
     ComponentStore_contains st' (Num 4096) = Inr False"
  by (simp add: abd_store_def abd_set_def model_defs cong: ebind_weak_cong)

text \<open>
  Claim C4. The store of scenario S2 is the one reached by adding \<open>A\<close>, \<open>B\<close> and \<open>D\<close> with the
  payloads 1, 2 and 3 to a fresh standard store. \<open>remove(B)\<close> on it returns success and
  leaves two entities, dense order \<open>[A, D]\<close>, payloads \<open>[1, 3]\<close>, \<open>get(A) = 1\<close>,
  \<open>get(D) = 3\<close> and \<open>contains(B) = false\<close>. In general, on a standard store that satisfies
  the structural invariants (sparse and dense arrays consistent with each other, payload
  array as long as the dense prefix), removing a contained entity \<open>e\<close> found at dense
  position \<open>idx\<close> returns success, makes the store one shorter and no longer containing \<open>e\<close>,
  and keeps the invariants; every entity \<open>x\<close> of another slot that was at position \<open>j\<close> is
  afterwards at position \<open>j\<close>, except the one that was last, which is at \<open>idx\<close>; the dense
  array and the payload array hold at the new position of \<open>x\<close> what they held at \<open>j\<close>, and the
  payload cell that was last is emptied.
\<close>

theorem ComponentStore_swap_remove:
  "abd_scenario = Inr abd_store \<and>
   (\<exists>st'. ComponentStore_remove abd_store (Num 4096) = Inr (SUCCESS_OPERATION, st') \<and>
      ComponentStore_len st' = 2 \<and>
      take 2 (ComponentStore_data st') = [Num 0, Num 8192] \<and>
      take 2 (cs_components st') = [Some 1, Some 3] \<and>
      ComponentStore_get st' (Num 0) = Inr (Some 1) \<and>
      ComponentStore_get st' (Num 8192) = Inr (Some 3) \<and>
      ComponentStore_contains st' (Num 4096) = Inr False) \<and>
   (ComponentStore_inv st \<and> \<not> isEmptyComp st \<and> ComponentStore_contains st e = Inr True \<longrightarrow>
     (\<exists>st' idx.
        SparseSet_index (cs_set st) e = Inr idx \<and> 0 \<le> idx \<and> idx < ComponentStore_len st \<and>
        ComponentStore_remove st e = Inr (SUCCESS_OPERATION, st') \<and>
        ComponentStore_len st' = ComponentStore_len st - 1 \<and>
        ComponentStore_contains st' e = Inr False \<and>
        ComponentStore_inv st' \<and>
        (\<forall>x j. SparseSet_index (cs_set st) x = Inr j \<and> j \<noteq> FAILED_OPERATION \<and>
               handle_index (entityHandler (cs_set st)) x \<noteq>
               handle_index (entityHandler (cs_set st)) e \<longrightarrow>
           SparseSet_index (cs_set st') x =
             Inr (if j = ComponentStore_len st - 1 then idx else j) \<and>
           array_get (dense (cs_set st')) (if j = ComponentStore_len st - 1 then idx else j) =
             array_get (dense (cs_set st)) j \<and>
           comp_get (cs_components st') (if j = ComponentStore_len st - 1 then idx else j) =
             comp_get (cs_components st) j) \<and>
        comp_get (cs_components st') (ComponentStore_len st - 1) = None))"
proof (intro conjI impI)
  show "abd_scenario = Inr abd_store" by (rule abd_scenario_eval)
  show "\<exists>st'. ComponentStore_remove abd_store (Num 4096) = Inr (SUCCESS_OPERATION, st') \<and>
      ComponentStore_len st' = 2 \<and>
      take 2 (ComponentStore_data st') = [Num 0, Num 8192] \<and>
      take 2 (cs_components st') = [Some 1, Some 3] \<and>
      ComponentStore_get st' (Num 0) = Inr (Some 1) \<and>
      ComponentStore_get st' (Num 8192) = Inr (Some 3) \<and>
      ComponentStore_contains st' (Num 4096) = Inr False"
    by (rule abd_remove_eval)
next
  assume h: "ComponentStore_inv st \<and> \<not> isEmptyComp st \<and> ComponentStore_contains st e = Inr True"
  then have inv: "ComponentStore_inv st" and ne: "\<not> isEmptyComp st"
    and c: "ComponentStore_contains st e = Inr True"
    by simp_all
  from ComponentStore_remove_contained [OF inv c] ne
  show "\<exists>st' idx.
        SparseSet_index (cs_set st) e = Inr idx \<and> 0 \<le> idx \<and> idx < ComponentStore_len st \<and>
        ComponentStore_remove st e = Inr (SUCCESS_OPERATION, st') \<and>
        ComponentStore_len st' = ComponentStore_len st - 1 \<and>
        ComponentStore_contains st' e = Inr False \<and>
        ComponentStore_inv st' \<and>
        (\<forall>x j. SparseSet_index (cs_set st) x = Inr j \<and> j \<noteq> FAILED_OPERATION \<and>
               handle_index (entityHandler (cs_set st)) x \<noteq>
               handle_index (entityHandler (cs_set st)) e \<longrightarrow>
           SparseSet_index (cs_set st') x =
             Inr (if j = ComponentStore_len st - 1 then idx else j) \<and>
           array_get (dense (cs_set st')) (if j = ComponentStore_len st - 1 then idx else j) =
             array_get (dense (cs_set st)) j \<and>
           comp_get (cs_components st') (if j = ComponentStore_len st - 1 then idx else j) =
             comp_get (cs_components st) j) \<and>
        comp_get (cs_components st') (ComponentStore_len st - 1) = None"
    by simp
qed

text \<open>On the store of scenario S2, removing \<open>A\<close> (dense position 0) moves \<open>D\<close>, the last
  entity, from position 2 to position 0 with its payload 3, and leaves \<open>B\<close> at position 1
  with its payload 2.\<close>

theorem ComponentStore_swap_remove_witness:
  "\<exists>st'. ComponentStore_inv abd_store \<and> \<not> isEmptyComp abd_store \<and>
     ComponentStore_contains abd_store (Num 0) = Inr True \<and>
     SparseSet_index (cs_set abd_store) (Num 0) = Inr 0 \<and>
     ComponentStore_remove abd_store (Num 0) = Inr (SUCCESS_OPERATION, st') \<and>
     ComponentStore_len st' = 2 \<and>
     ComponentStore_contains st' (Num 0) = Inr False \<and>
     ComponentStore_inv st' \<and>
     SparseSet_index (cs_set st') (Num 8192) = Inr 0 \<and>
     array_get (dense (cs_set st')) 0 = Num 8192 \<and>
     comp_get (cs_components st') 0 = Some 3 \<and>
     SparseSet_index (cs_set st') (Num 4096) = Inr 1 \<and>
     array_get (dense (cs_set st')) 1 = Num 4096 \<and>
     comp_get (cs_components st') 1 = Some 2 \<and>
     comp_get (cs_components st') 2 = None"
proof -
  have ne: "\<not> isEmptyComp abd_store" by (simp add: abd_store_def)
  have c: "ComponentStore_contains abd_store (Num 0) = Inr True"
    by (simp add: abd_store_def abd_set_def model_defs)
  have len: "ComponentStore_len abd_store = 3"
    by (simp add: abd_store_def abd_set_def model_defs)
  have i0: "SparseSet_index (cs_set abd_store) (Num 0) = Inr 0"
    and i1: "SparseSet_index (cs_set abd_store) (Num 4096) = Inr 1"
    and i2: "SparseSet_index (cs_set abd_store) (Num 8192) = Inr 2"
    by (simp_all add: abd_store_def abd_set_def model_defs)
  have d1: "array_get (dense (cs_set abd_store)) 1 = Num 4096"
    and d2: "array_get (dense (cs_set abd_store)) 2 = Num 8192"
    and p1: "comp_get (cs_components abd_store) 1 = Some 2"
    and p2: "comp_get (cs_components abd_store) 2 = Some 3"
    by (simp_all add: abd_store_def abd_set_def model_defs)
  have h1: "handle_index (entityHandler (cs_set abd_store)) (Num 4096) \<noteq>
            handle_index (entityHandler (cs_set abd_store)) (Num 0)"
    and h2: "handle_index (entityHandler (cs_set abd_store)) (Num 8192) \<noteq>
            handle_index (entityHandler (cs_set abd_store)) (Num 0)"
    by (simp_all add: abd_store_def abd_set_def model_defs)
  from ComponentStore_swap_remove [of abd_store "Num 0"] abd_store_inv ne c
  obtain st' idx where
    ix: "SparseSet_index (cs_set abd_store) (Num 0) = Inr idx" and
    r: "ComponentStore_remove abd_store (Num 0) = Inr (SUCCESS_OPERATION, st')" and
    l: "ComponentStore_len st' = ComponentStore_len abd_store - 1" and
    nc: "ComponentStore_contains st' (Num 0) = Inr False" and
    inv': "ComponentStore_inv st'" and
    others: "\<And>x j. SparseSet_index (cs_set abd_store) x = Inr j \<Longrightarrow> j \<noteq> FAILED_OPERATION \<Longrightarrow>
               handle_index (entityHandler (cs_set abd_store)) x \<noteq>
               handle_index (entityHandler (cs_set abd_store)) (Num 0) \<Longrightarrow>
           SparseSet_index (cs_set st') x =
             Inr (if j = ComponentStore_len abd_store - 1 then idx else j) \<and>
           array_get (dense (cs_set st')) (if j = ComponentStore_len abd_store - 1 then idx else j) =
             array_get (dense (cs_set abd_store)) j \<and>
           comp_get (cs_components st') (if j = ComponentStore_len abd_store - 1 then idx else j) =
             comp_get (cs_components abd_store) j" and
    last: "comp_get (cs_components st') (ComponentStore_len abd_store - 1) = None"
    by blast
  from ix i0 have idx: "idx = 0" by simp
  from others [OF i1 _ h1] others [OF i2 _ h2] d1 d2 p1 p2
  have "SparseSet_index (cs_set st') (Num 8192) = Inr 0"
    "array_get (dense (cs_set st')) 0 = Num 8192"
    "comp_get (cs_components st') 0 = Some 3"
    "SparseSet_index (cs_set st') (Num 4096) = Inr 1"
    "array_get (dense (cs_set st')) 1 = Num 4096"
    "comp_get (cs_components st') 1 = Some 2"
    by (simp_all add: len idx FAILED_OPERATION_def)
  with abd_store_inv ne c i0 r l nc inv' last show ?thesis
    by (simp add: len)
qed

section \<open>SparseSet.swap on a set that satisfies the invariants\<close>

lemma SparseSet_swap_eq:
  assumes k1: "handle_index (entityHandler s) e1 = Inr k1" and c1: "cell s k1 = Some d1"
    and k2: "handle_index (entityHandler s) e2 = Inr k2" and c2: "cell s k2 = Some d2"
    and ne: "e1 \<noteq> e2"
    and r: "0 \<le> d1" "d1 < slength s" "0 \<le> d2" "d2 < slength s"
  shows "SparseSet_swap s e1 e2 =
     ebind (array_set (dense_kind s) (dense s) d1 (array_get (dense s) d2)) (\<lambda>da.
       ebind (array_set (dense_kind s) da d2 (array_get (dense s) d1)) (\<lambda>db.
         ebind (sparse_set (sparse s) (k1 div pageSize s) (js_and k1 (pageSize s - 1)) d2) (\<lambda>sp1.
           ebind (sparse_set sp1 (k2 div pageSize s) (js_and k2 (pageSize s - 1)) d1) (\<lambda>sp2.
             Inr (SUCCESS_OPERATION, s\<lparr> sparse := sp2, dense := db \<rparr>)))))"
proof -
  from c1 obtain page1 where
    p1: "sparse s (k1 div pageSize s) = Some page1" "page1 (js_and k1 (pageSize s - 1)) = Some d1"
    by (auto simp add: cell_def split: option.splits)
  from c2 obtain page2 where
    p2: "sparse s (k2 div pageSize s) = Some page2" "page2 (js_and k2 (pageSize s - 1)) = Some d2"
    by (auto simp add: cell_def split: option.splits)
  from r have n0: "slength s \<noteq> 0" by simp
  from r have nt: "d1 \<noteq> TOMBSTONE" "d2 \<noteq> TOMBSTONE" by (simp_all add: TOMBSTONE_def)
  show ?thesis
    unfolding SparseSet_swap_def pageIndex_Inr [OF k1] pageOffset_Inr [OF k1]
      pageIndex_Inr [OF k2] pageOffset_Inr [OF k2]
    using p1 p2 n0 nt ne r by (simp add: ebind_Inr Let_def)
qed

lemma SparseSet_swap_positions:
  assumes inv: "SparseSet_inv s" and a: "0 \<le> a" "a < slength s" and b: "0 \<le> b" "b < slength s"
    and ab: "a \<noteq> b"
  shows "\<exists>s'. SparseSet_swap s (dense s ! nat a) (dense s ! nat b) = Inr (SUCCESS_OPERATION, s') \<and>
      slength s' = slength s \<and>
      dense s' = (dense s)[nat a := dense s ! nat b, nat b := dense s ! nat a] \<and>
      pageSize s' = pageSize s \<and> entityHandler s' = entityHandler s \<and>
      typedArray s' = typedArray s \<and> SparseSet_inv s'"
proof -
  let ?h = "entityHandler s" and ?ea = "dense s ! nat a" and ?eb = "dense s ! nat b"
  note I = SparseSet_invD [OF inv]
  from I(4) [OF a] obtain ka where ka: "handle_index ?h ?ea = Inr ka" and ca: "cell s ka = Some a"
    by blast
  from I(4) [OF b] obtain kb where kb: "handle_index ?h ?eb = Inr kb" and cb: "cell s kb = Some b"
    by blast
  have kne: "ka \<noteq> kb" using ca cb ab by auto
  then have ene: "?ea \<noteq> ?eb" using ka kb by auto
  have la: "nat a < length (dense s)" and lb: "nat b < length (dense s)"
    using a b I(3) by simp_all
  have ga: "array_get (dense s) a = ?ea" and gb: "array_get (dense s) b = ?eb"
    using a b I(3) by (simp_all add: array_get_def)
  have ta: "to_elem (dense_kind s) ?ea = Inr ?ea" and tb: "to_elem (dense_kind s) ?eb = Inr ?eb"
    using la lb by (simp_all add: I(7) nth_mem)
  let ?da = "(dense s)[nat a := ?eb]"
  let ?db = "?da[nat b := ?ea]"
  have s1: "array_set (dense_kind s) (dense s) a ?eb = Inr ?da"
    using tb a I(3) by (simp add: array_set_in_range)
  have s2: "array_set (dense_kind s) ?da b ?ea = Inr ?db"
    using ta b I(3) by (simp add: array_set_in_range)
  from sparse_set_defined [OF ca] obtain sp1 where
    sp1: "sparse_set (sparse s) (ka div pageSize s) (js_and ka (pageSize s - 1)) b = Inr sp1"
    by blast
  let ?s1 = "s\<lparr> sparse := sp1 \<rparr>"
  have c1: "cell ?s1 k' = (if k' = ka then Some b else cell s k')" for k'
    by (rule cell_sparse_set [OF I(1) sp1]) simp_all
  then have "cell ?s1 kb = Some b" using kne cb by simp
  from sparse_set_defined [OF this] obtain sp2 where
    sp2: "sparse_set sp1 (kb div pageSize s) (js_and kb (pageSize s - 1)) a = Inr sp2"
    by auto
  let ?s' = "s\<lparr> sparse := sp2, dense := ?db \<rparr>"
  have ok1: "pageSize_ok ?s1" using I(1) by (simp add: pageSize_ok_def)
  have c2: "cell ?s' k' = (if k' = kb then Some a else cell ?s1 k')" for k'
    by (rule cell_sparse_set [OF ok1, of kb _ sp2]) (use sp2 in simp_all)
  have cells: "cell ?s' k' = (if k' = kb then Some a else if k' = ka then Some b else cell s k')" for k'
    using c1 c2 by simp
  have sw: "SparseSet_swap s ?ea ?eb = Inr (SUCCESS_OPERATION, ?s')"
    unfolding SparseSet_swap_eq [OF ka ca kb cb ene a b] ga gb
    using s1 s2 sp1 sp2 by (simp add: ebind_Inr)
  have dn: "?db ! nat j = (if j = b then ?ea else if j = a then ?eb else dense s ! nat j)"
    if "0 \<le> j" "j < slength s" for j
    using that a b I(3) by (auto simp add: nth_list_update)
  have p1: "pageSize_ok ?s'" using I(1) by (simp add: pageSize_ok_def)
  have p2: "0 \<le> slength ?s'" "slength ?s' \<le> int (length (dense ?s'))"
    using I(2,3) by simp_all
  have p3: "\<exists>k'. handle_index (entityHandler ?s') (dense ?s' ! nat j) = Inr k' \<and> cell ?s' k' = Some j"
    if j: "0 \<le> j" "j < slength ?s'" for j
  proof -
    from j have j2: "j < slength s" by simp
    consider "j = a" | "j = b" | "j \<noteq> a" "j \<noteq> b" by blast
    then show ?thesis
    proof cases
      case 1
      then show ?thesis using kb ab dn [OF j(1) j2] cells [of kb]
        by (intro exI [of _ kb]) simp
    next
      case 2
      then show ?thesis using ka kne dn [OF j(1) j2] cells [of ka]
        by (intro exI [of _ ka]) simp
    next
      case 3
      from I(4) [OF j(1) j2] obtain kj where
        kj: "handle_index ?h (dense s ! nat j) = Inr kj" "cell s kj = Some j" by blast
      have "kj \<noteq> ka" "kj \<noteq> kb" using kj(2) ca cb 3 by auto
      then show ?thesis using kj 3 dn [OF j(1) j2] cells [of kj]
        by (intro exI [of _ kj]) simp
    qed
  qed
  have p4: "-1 \<le> v \<and> (0 \<le> v \<and> v < slength ?s' \<longrightarrow>
               handle_index (entityHandler ?s') (dense ?s' ! nat v) = Inr k')"
    if c: "cell ?s' k' = Some v" for k' v
  proof -
    consider "k' = kb" | "k' = ka" | "k' \<noteq> ka" "k' \<noteq> kb" by blast
    then show ?thesis
    proof cases
      case 1
      with c have "v = a" by (simp add: cells)
      then show ?thesis using 1 a ab kb dn [OF a] by simp
    next
      case 2
      with c kne have "v = b" by (simp add: cells)
      then show ?thesis using 2 b ka dn [OF b] by simp
    next
      case 3
      with c have cs: "cell s k' = Some v" by (simp add: cells)
      have "handle_index ?h (?db ! nat v) = Inr k'" if v: "0 \<le> v" "v < slength s"
      proof -
        from I(6) [OF cs v] have kv: "handle_index ?h (dense s ! nat v) = Inr k'" .
        have "v \<noteq> a" "v \<noteq> b" using kv ka kb 3 by auto
        with kv dn [OF v] show ?thesis by simp
      qed
      with I(5) [OF cs] show ?thesis by simp
    qed
  qed
  have "set ?db \<subseteq> set (dense s)"
    using la lb by (intro set_update_subsetI) (simp_all add: nth_mem)
  then have p5: "\<forall>x \<in> set (dense ?s'). to_elem (dense_kind ?s') x = Inr x"
    using I(7) by (auto simp add: dense_kind_def)
  have "SparseSet_inv ?s'"
    unfolding SparseSet_inv_def using p1 p2 p3 p4 p5 by blast
  with sw show ?thesis by (intro exI [of _ ?s']) simp
qed

section \<open>The insertion sort of sortBasedComponent\<close>

lemma zip_take_swap:
  assumes "a < n" "b < n" "n \<le> length ds" "n \<le> length xs"
  shows "mset (zip (take n (ds[a := ds ! b, b := ds ! a])) (take n (xs[a := xs ! b, b := xs ! a])))
         = mset (zip (take n ds) (take n xs))"
proof -
  let ?P = "zip (take n ds) (take n xs)"
  have l: "a < length ?P" "b < length ?P" using assms by simp_all
  have e: "zip (take n (ds[a := ds ! b, b := ds ! a])) (take n (xs[a := xs ! b, b := xs ! a]))
        = ?P[a := ?P ! b, b := ?P ! a]"
    using assms by (simp add: take_update_swap zip_update del: update_zip)
  show ?thesis unfolding e by (rule mset_swap [OF l(2) l(1)])
qed

lemma sort_inner_correct:
  "ComponentStore_inv st \<Longrightarrow> \<not> isEmptyComp st \<Longrightarrow> j \<le> i \<Longrightarrow>
     int i < slength (cs_set st) \<Longrightarrow>
     \<exists>st'. sort_inner cmp st j = Inr st' \<and> ComponentStore_inv st' \<and> \<not> isEmptyComp st' \<and>
        compConstructor st' = compConstructor st \<and>
        entityHandler (cs_set st') = entityHandler (cs_set st) \<and>
        slength (cs_set st') = slength (cs_set st) \<and>
        mset (pairing st') = mset (pairing st) \<and>
        (consistent_comparator cmp \<and>
         (\<forall>a b. a < b \<and> b \<le> i \<and> a \<noteq> j \<and> b \<noteq> j \<longrightarrow>
            \<not> cmp (cs_components st ! b) (cs_components st ! a) < 0) \<and>
         (\<forall>b. j < b \<and> b \<le> i \<longrightarrow> cmp (cs_components st ! j) (cs_components st ! b) < 0) \<longrightarrow>
         (\<forall>a b. a < b \<and> b \<le> i \<longrightarrow>
            \<not> cmp (cs_components st' ! b) (cs_components st' ! a) < 0))"
proof (induction j arbitrary: st)
  case 0
  have S: "\<not> cmp (cs_components st ! b) (cs_components st ! a) < 0"
    if cc: "consistent_comparator cmp"
      and I1: "\<forall>a b. a < b \<and> b \<le> i \<and> a \<noteq> 0 \<and> b \<noteq> 0 \<longrightarrow>
            \<not> cmp (cs_components st ! b) (cs_components st ! a) < 0"
      and I2: "\<forall>b. 0 < b \<and> b \<le> i \<longrightarrow> cmp (cs_components st ! 0) (cs_components st ! b) < 0"
      and ab: "a < b \<and> b \<le> i" for a b
  proof (cases "a = 0")
    case True
    from cc have asym: "\<And>a b. cmp a b < 0 \<Longrightarrow> \<not> cmp b a < 0"
      unfolding consistent_comparator_def by blast
    from True ab I2 have "cmp (cs_components st ! 0) (cs_components st ! b) < 0" by simp
    from asym [OF this] True show ?thesis by simp
  next
    case False
    with ab I1 show ?thesis by simp
  qed
  have r: "sort_inner cmp st 0 = Inr st" by simp
  from S have S': "consistent_comparator cmp \<and>
         (\<forall>a b. a < b \<and> b \<le> i \<and> a \<noteq> 0 \<and> b \<noteq> 0 \<longrightarrow>
            \<not> cmp (cs_components st ! b) (cs_components st ! a) < 0) \<and>
         (\<forall>b. 0 < b \<and> b \<le> i \<longrightarrow> cmp (cs_components st ! 0) (cs_components st ! b) < 0) \<longrightarrow>
         (\<forall>a b. a < b \<and> b \<le> i \<longrightarrow>
            \<not> cmp (cs_components st ! b) (cs_components st ! a) < 0)"
    by blast
  from r 0(1,2) S' show ?case
    by (intro exI [of _ st] conjI) (assumption | rule refl)+
next
  case (Suc j)
  let ?xs = "cs_components st" and ?s = "cs_set st"
  note inv = Suc.prems(1) and ne = Suc.prems(2) and ji = Suc.prems(3) and il = Suc.prems(4)
  from inv ne have sinv: "SparseSet_inv ?s" and cl: "slength ?s \<le> int (length ?xs)"
    by (simp_all add: ComponentStore_inv_def)
  have jl: "Suc j < length ?xs" using ji il cl by simp
  have g1: "comp_get ?xs (int (Suc j)) = ?xs ! Suc j" and g0: "comp_get ?xs (int j) = ?xs ! j"
    using jl by (simp_all add: comp_get_def del: of_nat_Suc)
  show ?case
  proof (cases "cmp (?xs ! Suc j) (?xs ! j) < 0")
    case False
    have r: "sort_inner cmp st (Suc j) = Inr st"
      unfolding sort_inner.simps g1 g0 using False by simp
    have S: "\<not> cmp (?xs ! b) (?xs ! a) < 0"
      if cc: "consistent_comparator cmp"
        and I1': "\<forall>a b. a < b \<and> b \<le> i \<and> a \<noteq> Suc j \<and> b \<noteq> Suc j \<longrightarrow>
            \<not> cmp (?xs ! b) (?xs ! a) < 0"
        and I2': "\<forall>b. Suc j < b \<and> b \<le> i \<longrightarrow> cmp (?xs ! Suc j) (?xs ! b) < 0"
        and ab: "a < b \<and> b \<le> i" for a b
    proof -
      from cc have asym: "\<And>a b. cmp a b < 0 \<Longrightarrow> \<not> cmp b a < 0"
        and trans: "\<And>a b c. \<not> cmp b a < 0 \<Longrightarrow> \<not> cmp c b < 0 \<Longrightarrow> \<not> cmp c a < 0"
        unfolding consistent_comparator_def by blast+
      note I1 = I1' [rule_format] and I2 = I2' [rule_format]
      consider "a = Suc j" | "b = Suc j" "a = j" | "b = Suc j" "a \<noteq> j" | "a \<noteq> Suc j" "b \<noteq> Suc j"
        by blast
      then show ?thesis
      proof cases
        case 1
        with ab have "cmp (?xs ! Suc j) (?xs ! b) < 0" by (intro I2) simp
        from asym [OF this] 1 show ?thesis by simp
      next
        case 2
        with False show ?thesis by simp
      next
        case 3
        with ab ji have "\<not> cmp (?xs ! j) (?xs ! a) < 0" by (intro I1) simp
        from trans [OF this False] 3 show ?thesis by simp
      next
        case 4
        with ab show ?thesis by (intro I1) simp
      qed
    qed
    from S have S': "consistent_comparator cmp \<and>
         (\<forall>a b. a < b \<and> b \<le> i \<and> a \<noteq> Suc j \<and> b \<noteq> Suc j \<longrightarrow>
            \<not> cmp (?xs ! b) (?xs ! a) < 0) \<and>
         (\<forall>b. Suc j < b \<and> b \<le> i \<longrightarrow> cmp (?xs ! Suc j) (?xs ! b) < 0) \<longrightarrow>
         (\<forall>a b. a < b \<and> b \<le> i \<longrightarrow> \<not> cmp (?xs ! b) (?xs ! a) < 0)"
      by blast
    from r inv ne S' show ?thesis
      by (intro exI [of _ st] conjI) (assumption | rule refl)+
  next
    case True
    have a: "0 \<le> int (Suc j)" "int (Suc j) < slength ?s" and b: "0 \<le> int j" "int j < slength ?s"
      using ji il by simp_all
    have ne_ab: "int (Suc j) \<noteq> int j" by simp
    from SparseSet_swap_positions [OF sinv a b ne_ab, unfolded nat_int] obtain s1 where
      sw: "SparseSet_swap ?s (dense ?s ! Suc j) (dense ?s ! j) = Inr (SUCCESS_OPERATION, s1)" and
      sl: "slength s1 = slength ?s" and
      d1: "dense s1 = (dense ?s)[Suc j := dense ?s ! j, j := dense ?s ! Suc j]" and
      eh: "entityHandler s1 = entityHandler ?s" and
      sinv1: "SparseSet_inv s1"
      by blast
    have dl: "slength ?s \<le> int (length (dense ?s))" by (rule SparseSet_invD(3) [OF sinv])
    have ag: "array_get (dense ?s) (int (Suc j)) = dense ?s ! Suc j"
      "array_get (dense ?s) (int j) = dense ?s ! j"
      using a b dl by (simp_all add: array_get_def del: of_nat_Suc)
    let ?c2 = "?xs[Suc j := ?xs ! j, j := ?xs ! Suc j]"
    have cs: "comp_set (comp_set ?xs (int (Suc j)) (?xs ! j)) (int j) (?xs ! Suc j) = ?c2"
      using jl by (simp add: comp_set_def del: of_nat_Suc)
    let ?st1 = "st\<lparr> cs_set := s1, cs_components := ?c2 \<rparr>"
    have r: "sort_inner cmp st (Suc j) = sort_inner cmp ?st1 j"
      unfolding sort_inner.simps g1 g0 Let_def cs ag sw using True by (simp add: ebind_Inr)
    have inv1: "ComponentStore_inv ?st1" using sinv1 sl cl ne
      by (simp add: ComponentStore_inv_def)
    have ne1: "\<not> isEmptyComp ?st1" using ne by simp
    have il1: "int i < slength (cs_set ?st1)" using il sl by simp
    have nth: "?c2 ! k = (if k = j then ?xs ! Suc j else if k = Suc j then ?xs ! j else ?xs ! k)"
      for k
      using jl by (simp add: nth_list_update)
    have I1n: "\<forall>a b. a < b \<and> b \<le> i \<and> a \<noteq> j \<and> b \<noteq> j \<longrightarrow>
        \<not> cmp (cs_components ?st1 ! b) (cs_components ?st1 ! a) < 0"
      if I1': "\<forall>a b. a < b \<and> b \<le> i \<and> a \<noteq> Suc j \<and> b \<noteq> Suc j \<longrightarrow>
            \<not> cmp (?xs ! b) (?xs ! a) < 0"
    proof (intro allI impI)
      note I1 = I1' [rule_format]
      fix a b assume ab: "a < b \<and> b \<le> i \<and> a \<noteq> j \<and> b \<noteq> j"
      consider "a = Suc j" | "b = Suc j" | "a \<noteq> Suc j" "b \<noteq> Suc j" by blast
      then show "\<not> cmp (cs_components ?st1 ! b) (cs_components ?st1 ! a) < 0"
      proof cases
        case 1
        with ab have "\<not> cmp (?xs ! b) (?xs ! j) < 0" by (intro I1) simp
        with 1 ab show ?thesis by (simp add: nth)
      next
        case 2
        with ab have "\<not> cmp (?xs ! j) (?xs ! a) < 0" by (intro I1) simp
        with 2 ab show ?thesis by (simp add: nth)
      next
        case 3
        with ab have "\<not> cmp (?xs ! b) (?xs ! a) < 0" by (intro I1) simp
        with 3 ab show ?thesis by (simp add: nth)
      qed
    qed
    have I2n: "\<forall>b. j < b \<and> b \<le> i \<longrightarrow>
        cmp (cs_components ?st1 ! j) (cs_components ?st1 ! b) < 0"
      if I2': "\<forall>b. Suc j < b \<and> b \<le> i \<longrightarrow> cmp (?xs ! Suc j) (?xs ! b) < 0"
    proof (intro allI impI)
      note I2 = I2' [rule_format]
      fix b assume jb: "j < b \<and> b \<le> i"
      show "cmp (cs_components ?st1 ! j) (cs_components ?st1 ! b) < 0"
      proof (cases "b = Suc j")
        case True
        with \<open>cmp (?xs ! Suc j) (?xs ! j) < 0\<close> show ?thesis by (simp add: nth)
      next
        case False
        with jb have "cmp (?xs ! Suc j) (?xs ! b) < 0" by (intro I2) simp
        with False jb show ?thesis by (simp add: nth)
      qed
    qed
    have n0: "0 \<le> slength ?s" by (rule SparseSet_invD(2) [OF sinv])
    have pm: "mset (pairing ?st1) = mset (pairing st)"
      unfolding pairing_def ComponentStore_len_def SparseSet_len_def ComponentStore_data_def
        SparseSet_data_def
      using zip_take_swap [of "Suc j" "nat (slength ?s)" j "dense ?s" ?xs] ji il cl dl n0
      by (simp add: sl d1)
    from ji have ji': "j \<le> i" by simp
    from Suc.IH [OF inv1 ne1 ji' il1] obtain st' where
      st': "sort_inner cmp ?st1 j = Inr st'" "ComponentStore_inv st'" "\<not> isEmptyComp st'"
      "compConstructor st' = compConstructor ?st1"
      "slength (cs_set st') = slength (cs_set ?st1)"
      "mset (pairing st') = mset (pairing ?st1)"
      "entityHandler (cs_set st') = entityHandler (cs_set ?st1)" and
      so: "consistent_comparator cmp \<and>
         (\<forall>a b. a < b \<and> b \<le> i \<and> a \<noteq> j \<and> b \<noteq> j \<longrightarrow>
            \<not> cmp (cs_components ?st1 ! b) (cs_components ?st1 ! a) < 0) \<and>
         (\<forall>b. j < b \<and> b \<le> i \<longrightarrow> cmp (cs_components ?st1 ! j) (cs_components ?st1 ! b) < 0) \<longrightarrow>
         (\<forall>a b. a < b \<and> b \<le> i \<longrightarrow>
            \<not> cmp (cs_components st' ! b) (cs_components st' ! a) < 0)"
      by blast
    from so I1n I2n have S': "consistent_comparator cmp \<and>
         (\<forall>a b. a < b \<and> b \<le> i \<and> a \<noteq> Suc j \<and> b \<noteq> Suc j \<longrightarrow>
            \<not> cmp (?xs ! b) (?xs ! a) < 0) \<and>
         (\<forall>b. Suc j < b \<and> b \<le> i \<longrightarrow> cmp (?xs ! Suc j) (?xs ! b) < 0) \<longrightarrow>
         (\<forall>a b. a < b \<and> b \<le> i \<longrightarrow>
            \<not> cmp (cs_components st' ! b) (cs_components st' ! a) < 0)"
      by blast
    have e1: "sort_inner cmp st (Suc j) = Inr st'" using r st'(1) by simp
    have e2: "compConstructor st' = compConstructor st" using st'(4) by simp
    have e3: "slength (cs_set st') = slength (cs_set st)" using st'(5) sl by simp
    have e4: "mset (pairing st') = mset (pairing st)" using st'(6) pm by simp
    have e5: "entityHandler (cs_set st') = entityHandler (cs_set st)" using st'(7) eh by simp
    from e1 st'(2,3) e2 e5 e3 e4 S' show ?thesis
      by (intro exI [of _ st'] conjI) assumption+
  qed
qed


lemma sort_outer_correct:
  "ComponentStore_inv st \<Longrightarrow> \<not> isEmptyComp st \<Longrightarrow> int (i + n) = slength (cs_set st) \<Longrightarrow>
     \<exists>st'. sort_outer cmp st i n = Inr st' \<and> ComponentStore_inv st' \<and> \<not> isEmptyComp st' \<and>
        compConstructor st' = compConstructor st \<and>
        entityHandler (cs_set st') = entityHandler (cs_set st) \<and>
        slength (cs_set st') = slength (cs_set st) \<and>
        mset (pairing st') = mset (pairing st) \<and>
        (consistent_comparator cmp \<and>
         (\<forall>a b. a < b \<and> b < i \<longrightarrow>
            \<not> cmp (cs_components st ! b) (cs_components st ! a) < 0) \<longrightarrow>
         (\<forall>a b. a < b \<and> b < i + n \<longrightarrow>
            \<not> cmp (cs_components st' ! b) (cs_components st' ! a) < 0))"
proof (induction n arbitrary: st i)
  case 0
  have r: "sort_outer cmp st i 0 = Inr st" by simp
  have S: "consistent_comparator cmp \<and>
         (\<forall>a b. a < b \<and> b < i \<longrightarrow>
            \<not> cmp (cs_components st ! b) (cs_components st ! a) < 0) \<longrightarrow>
         (\<forall>a b. a < b \<and> b < i + 0 \<longrightarrow>
            \<not> cmp (cs_components st ! b) (cs_components st ! a) < 0)"
    by simp
  from r 0(1,2) S show ?case
    by (intro exI [of _ st] conjI) (assumption | rule refl)+
next
  case (Suc n)
  note inv = Suc.prems(1) and ne = Suc.prems(2) and len = Suc.prems(3)
  from len have il: "int i < slength (cs_set st)" by simp
  from sort_inner_correct [OF inv ne order_refl il, of cmp] obtain st1 where
    r1: "sort_inner cmp st i = Inr st1" and inv1: "ComponentStore_inv st1" and
    ne1: "\<not> isEmptyComp st1" and
    k1: "compConstructor st1 = compConstructor st"
      "entityHandler (cs_set st1) = entityHandler (cs_set st)"
      "slength (cs_set st1) = slength (cs_set st)"
      "mset (pairing st1) = mset (pairing st)" and
    s1: "consistent_comparator cmp \<and>
         (\<forall>a b. a < b \<and> b \<le> i \<and> a \<noteq> i \<and> b \<noteq> i \<longrightarrow>
            \<not> cmp (cs_components st ! b) (cs_components st ! a) < 0) \<and>
         (\<forall>b. i < b \<and> b \<le> i \<longrightarrow> cmp (cs_components st ! i) (cs_components st ! b) < 0) \<longrightarrow>
         (\<forall>a b. a < b \<and> b \<le> i \<longrightarrow>
            \<not> cmp (cs_components st1 ! b) (cs_components st1 ! a) < 0)"
    by blast
  from len k1(3) have len1: "int (Suc i + n) = slength (cs_set st1)" by simp
  from Suc.IH [OF inv1 ne1 len1] obtain st' where
    r2: "sort_outer cmp st1 (Suc i) n = Inr st'" and inv': "ComponentStore_inv st'" and
    ne': "\<not> isEmptyComp st'" and
    k2: "compConstructor st' = compConstructor st1"
      "entityHandler (cs_set st') = entityHandler (cs_set st1)"
      "slength (cs_set st') = slength (cs_set st1)"
      "mset (pairing st') = mset (pairing st1)" and
    s2: "consistent_comparator cmp \<and>
         (\<forall>a b. a < b \<and> b < Suc i \<longrightarrow>
            \<not> cmp (cs_components st1 ! b) (cs_components st1 ! a) < 0) \<longrightarrow>
         (\<forall>a b. a < b \<and> b < Suc i + n \<longrightarrow>
            \<not> cmp (cs_components st' ! b) (cs_components st' ! a) < 0)"
    by blast
  have e1: "sort_outer cmp st i (Suc n) = Inr st'"
    using r1 r2 by (simp add: ebind_Inr)
  have e2: "compConstructor st' = compConstructor st" using k1 k2 by simp
  have e3: "entityHandler (cs_set st') = entityHandler (cs_set st)" using k1 k2 by simp
  have e4: "slength (cs_set st') = slength (cs_set st)" using k1 k2 by simp
  have e5: "mset (pairing st') = mset (pairing st)" using k1 k2 by simp
  have S: "consistent_comparator cmp \<and>
         (\<forall>a b. a < b \<and> b < i \<longrightarrow>
            \<not> cmp (cs_components st ! b) (cs_components st ! a) < 0) \<longrightarrow>
         (\<forall>a b. a < b \<and> b < i + Suc n \<longrightarrow>
            \<not> cmp (cs_components st' ! b) (cs_components st' ! a) < 0)"
  proof (intro impI)
    assume h: "consistent_comparator cmp \<and>
         (\<forall>a b. a < b \<and> b < i \<longrightarrow>
            \<not> cmp (cs_components st ! b) (cs_components st ! a) < 0)"
    then have "\<forall>a b. a < b \<and> b \<le> i \<and> a \<noteq> i \<and> b \<noteq> i \<longrightarrow>
            \<not> cmp (cs_components st ! b) (cs_components st ! a) < 0"
      by simp
    with h s1 have "\<forall>a b. a < b \<and> b \<le> i \<longrightarrow>
            \<not> cmp (cs_components st1 ! b) (cs_components st1 ! a) < 0"
      by simp
    then have "\<forall>a b. a < b \<and> b < Suc i \<longrightarrow>
            \<not> cmp (cs_components st1 ! b) (cs_components st1 ! a) < 0"
      by (simp add: less_Suc_eq_le)
    with h s2 show "\<forall>a b. a < b \<and> b < i + Suc n \<longrightarrow>
            \<not> cmp (cs_components st' ! b) (cs_components st' ! a) < 0"
      by simp
  qed
  from e1 inv' ne' e2 e3 e4 e5 S show ?case
    by (intro exI [of _ st'] conjI) assumption+
qed

section \<open>Sorting a component store by payload\<close>

lemma kbd_scenario_eval: "kbd_scenario = Inr kbd_store"
  by (simp add: kbd_scenario_def kbd_store_def abd_store_def abd_set_def model_defs
      cong: ebind_weak_cong)

lemma kbd_store_inv: "ComponentStore_inv kbd_store"
  using abd_set_inv
  by (simp add: ComponentStore_inv_def kbd_store_def abd_store_def) (simp add: abd_set_def)

lemma payload_cmp_consistent: "consistent_comparator payload_cmp"
  by (simp add: consistent_comparator_def payload_cmp_def)

lemma kbd_sort_eval:
  "\<exists>st'. sortBasedComponent kbd_store payload_cmp = Inr (SUCCESS_OPERATION, st') \<and>
     pairing st' = [(Num 4096, Some 1), (Num 8192, Some 2), (Num 0, Some 3)] \<and>
     ComponentStore_get st' (Num 4096) = Inr (Some 1) \<and>
     ComponentStore_get st' (Num 8192) = Inr (Some 2) \<and>
     ComponentStore_get st' (Num 0) = Inr (Some 3)"
  by (simp add: kbd_store_def abd_store_def abd_set_def payload_cmp_def pairing_def model_defs
      cong: ebind_weak_cong)

lemma pairing_payloads:
  assumes "ComponentStore_inv st" and "\<not> isEmptyComp st"
  shows "map snd (pairing st) = take (nat (slength (cs_set st))) (cs_components st)"
    and "length (pairing st) = nat (slength (cs_set st))"
proof -
  let ?n = "nat (slength (cs_set st))"
  from assms have "slength (cs_set st) \<le> int (length (dense (cs_set st)))"
    and "slength (cs_set st) \<le> int (length (cs_components st))"
    by (simp_all add: ComponentStore_inv_def SparseSet_invD(3))
  then have a: "?n \<le> length (dense (cs_set st))" and b: "?n \<le> length (cs_components st)"
    by linarith+
  have p: "pairing st = zip (take ?n (dense (cs_set st))) (take ?n (cs_components st))"
    by (simp add: pairing_def ComponentStore_len_def SparseSet_len_def ComponentStore_data_def
        SparseSet_data_def)
  have l: "length (take ?n (dense (cs_set st))) = length (take ?n (cs_components st))"
    using a b by simp
  show "map snd (pairing st) = take ?n (cs_components st)"
    unfolding p by (rule map_snd_zip [OF l])
  show "length (pairing st) = ?n"
    unfolding p using a b by simp
qed

lemma inv_cells:
  assumes inv: "SparseSet_inv s" and i: "0 \<le> i" "i < slength s"
  shows "SparseSet_index s (array_get (dense s) i) = Inr i"
proof -
  note I = SparseSet_invD [OF inv]
  from I(4) [OF i] obtain k where
    k: "handle_index (entityHandler s) (dense s ! nat i) = Inr k" and c: "cell s k = Some i"
    by blast
  have g: "array_get (dense s) i = dense s ! nat i"
    using i I(3) by (simp add: array_get_def)
  show ?thesis
    unfolding g SparseSet_index_cell [OF k] using c i by (simp add: TOMBSTONE_def)
qed

lemma pairing_nth:
  assumes inv: "ComponentStore_inv st" and ne: "\<not> isEmptyComp st"
    and i: "i < nat (slength (cs_set st))"
  shows "pairing st ! i = (dense (cs_set st) ! i, cs_components st ! i)"
proof -
  let ?n = "nat (slength (cs_set st))"
  from inv ne have "slength (cs_set st) \<le> int (length (dense (cs_set st)))"
    and "slength (cs_set st) \<le> int (length (cs_components st))"
    by (simp_all add: ComponentStore_inv_def SparseSet_invD(3))
  then have a: "?n \<le> length (dense (cs_set st))" and b: "?n \<le> length (cs_components st)"
    by linarith+
  have p: "pairing st = zip (take ?n (dense (cs_set st))) (take ?n (cs_components st))"
    by (simp add: pairing_def ComponentStore_len_def SparseSet_len_def ComponentStore_data_def
        SparseSet_data_def)
  show ?thesis unfolding p using i a b by simp
qed

lemma get_at:
  assumes inv: "ComponentStore_inv st" and ne: "\<not> isEmptyComp st"
    and i: "i < nat (slength (cs_set st))"
    and kx: "handle_index (entityHandler (cs_set st)) x = Inr k"
    and ki: "handle_index (entityHandler (cs_set st)) (dense (cs_set st) ! i) = Inr k"
  shows "ComponentStore_get st x = Inr (cs_components st ! i)"
    and "ComponentStore_contains st x = Inr True"
proof -
  let ?s = "cs_set st"
  from inv ne have sinv: "SparseSet_inv ?s" and cl: "slength ?s \<le> int (length (cs_components st))"
    by (simp_all add: ComponentStore_inv_def)
  note I = SparseSet_invD [OF sinv]
  from i have i2: "0 \<le> int i" "int i < slength ?s" by simp_all
  from I(4) [OF i2] ki have c: "cell ?s k = Some (int i)" by simp
  have ix: "SparseSet_index ?s x = Inr (int i)"
    unfolding SparseSet_index_cell [OF kx] using c i2 by (simp add: TOMBSTONE_def)
  show "ComponentStore_get st x = Inr (cs_components st ! i)"
    using ne ix i2 cl
    by (simp add: ComponentStore_get_def ebind_Inr FAILED_OPERATION_def comp_get_def)
  show "ComponentStore_contains st x = Inr True"
    unfolding ComponentStore_contains_def SparseSet_contains_cell [OF kx]
    using c i2 by (simp add: TOMBSTONE_def)
qed

lemma get_none:
  assumes inv: "ComponentStore_inv st" and ne: "\<not> isEmptyComp st"
    and kx: "handle_index (entityHandler (cs_set st)) x = Inr k"
    and no: "\<forall>i < nat (slength (cs_set st)).
               handle_index (entityHandler (cs_set st)) (dense (cs_set st) ! i) \<noteq> Inr k"
  shows "ComponentStore_get st x = Inl ComponentDoesNotExist"
    and "ComponentStore_contains st x = Inr False"
proof -
  let ?s = "cs_set st"
  from inv have sinv: "SparseSet_inv ?s" by (simp add: ComponentStore_inv_def)
  note I = SparseSet_invD [OF sinv]
  have nc: "\<not> (d \<noteq> TOMBSTONE \<and> d < slength ?s)" if c: "cell ?s k = Some d" for d
  proof
    assume h: "d \<noteq> TOMBSTONE \<and> d < slength ?s"
    with I(5) [OF c] have d0: "0 \<le> d" by (simp add: TOMBSTONE_def)
    from I(6) [OF c d0] h have "handle_index (entityHandler ?s) (dense ?s ! nat d) = Inr k"
      by simp
    moreover have "nat d < nat (slength ?s)" using h d0 by simp
    ultimately show False using no by blast
  qed
  have ix: "SparseSet_index ?s x = Inr FAILED_OPERATION"
    unfolding SparseSet_index_cell [OF kx] using nc by (auto split: option.splits)
  show "ComponentStore_get st x = Inl ComponentDoesNotExist"
    using ne ix by (simp add: ComponentStore_get_def ebind_Inr)
  show "ComponentStore_contains st x = Inr False"
    unfolding ComponentStore_contains_def SparseSet_contains_cell [OF kx]
    using nc by (auto split: option.splits)
qed

lemma get_raise:
  assumes ne: "\<not> isEmptyComp st"
    and kx: "handle_index (entityHandler (cs_set st)) x = Inl err"
  shows "ComponentStore_get st x = Inl err"
    and "ComponentStore_contains st x = Inl err"
  using assms
  by (simp_all add: ComponentStore_get_def ComponentStore_contains_def SparseSet_index_def
      SparseSet_contains_def pageIndex_def ebind_def)

lemma pairing_determines_get:
  fixes st st' :: "('k, 'p) ComponentStore"
  assumes inv: "ComponentStore_inv st" and ne: "\<not> isEmptyComp st"
    and inv': "ComponentStore_inv st'" and ne': "\<not> isEmptyComp st'"
    and eh: "entityHandler (cs_set st') = entityHandler (cs_set st)"
    and pm: "mset (pairing st') = mset (pairing st)"
  shows "ComponentStore_get st' x = ComponentStore_get st x \<and>
         ComponentStore_contains st' x = ComponentStore_contains st x"
proof (cases "handle_index (entityHandler (cs_set st)) x")
  case (Inl err)
  from get_raise [OF ne Inl] get_raise [OF ne' Inl [folded eh]] show ?thesis by simp
next
  case (Inr k)
  let ?h = "entityHandler (cs_set st)"
  have sets: "set (pairing st') = set (pairing st)" using pm by (rule mset_eq_setD)
  have len: "length (pairing st') = length (pairing st)" using pm by (rule mset_eq_length)
  have l: "length (pairing st) = nat (slength (cs_set st))"
    and l': "length (pairing st') = nat (slength (cs_set st'))"
    by (rule pairing_payloads(2) [OF inv ne], rule pairing_payloads(2) [OF inv' ne'])
  have transfer: "\<exists>j < nat (slength (cs_set b)). dense (cs_set b) ! j = dense (cs_set a) ! i \<and>
            cs_components b ! j = cs_components a ! i"
    if ia: "ComponentStore_inv a" "\<not> isEmptyComp a" and ib: "ComponentStore_inv b" "\<not> isEmptyComp b"
      and s: "set (pairing a) \<subseteq> set (pairing b)" and i: "i < nat (slength (cs_set a))"
    for a b :: "('k, 'p) ComponentStore" and i
  proof -
    have "pairing a ! i \<in> set (pairing a)"
      using i pairing_payloads(2) [OF ia] by simp
    with s have "pairing a ! i \<in> set (pairing b)" by blast
    then obtain j where j: "j < length (pairing b)" "pairing b ! j = pairing a ! i"
      by (auto simp add: in_set_conv_nth)
    from j(1) have j': "j < nat (slength (cs_set b))" using pairing_payloads(2) [OF ib] by simp
    from j(2) show ?thesis
      unfolding pairing_nth [OF ia i] pairing_nth [OF ib j'] using j' by blast
  qed
  show ?thesis
  proof (cases "\<exists>i < nat (slength (cs_set st)). handle_index ?h (dense (cs_set st) ! i) = Inr k")
    case True
    then obtain i where i: "i < nat (slength (cs_set st))"
      and ki: "handle_index ?h (dense (cs_set st) ! i) = Inr k" by blast
    from transfer [OF inv ne inv' ne' _ i] sets obtain j where
      j: "j < nat (slength (cs_set st'))" "dense (cs_set st') ! j = dense (cs_set st) ! i"
        "cs_components st' ! j = cs_components st ! i"
      by auto
    from get_at [OF inv ne i Inr ki]
      get_at [OF inv' ne' j(1) Inr [folded eh]] ki j(2,3) eh
    show ?thesis by simp
  next
    case False
    then have no: "\<forall>i < nat (slength (cs_set st)). handle_index ?h (dense (cs_set st) ! i) \<noteq> Inr k"
      by blast
    have no': "\<forall>j < nat (slength (cs_set st')).
        handle_index (entityHandler (cs_set st')) (dense (cs_set st') ! j) \<noteq> Inr k"
    proof (intro allI impI)
      fix j assume j: "j < nat (slength (cs_set st'))"
      from transfer [OF inv' ne' inv ne _ j] sets obtain i where
        "i < nat (slength (cs_set st))" "dense (cs_set st) ! i = dense (cs_set st') ! j"
        by auto
      with no show "handle_index (entityHandler (cs_set st')) (dense (cs_set st') ! j) \<noteq> Inr k"
        unfolding eh by metis
    qed
    from get_none [OF inv ne Inr no] get_none [OF inv' ne' Inr [folded eh] no']
    show ?thesis by simp
  qed
qed






section \<open>Registry.destroy\<close>

lemma SparseSet_remove_handler:
  "SparseSet_remove s e = Inr (x, s') \<Longrightarrow> entityHandler s' = entityHandler s"
  by (auto simp add: SparseSet_remove_def ebind_def sparse_set_def Let_def
      split: if_splits sum.splits option.splits)

lemma ComponentStore_remove_handler:
  "ComponentStore_remove st e = Inr (x, st') \<Longrightarrow>
     entityHandler (cs_set st') = entityHandler (cs_set st)"
  by (auto simp add: ComponentStore_remove_def ebind_def Let_def
      dest: SparseSet_remove_handler split: if_splits sum.splits prod.splits)

lemma removeAll_loop_purges:
  assumes "\<forall>(k, cs) \<in> set css. ComponentStore_inv cs \<and> entityHandler (cs_set cs) = h"
    and "handle_index h e = Inr idx"
  shows "\<exists>css'. removeAll_loop css e = Inr css' \<and> list_all2 (purged e) css css' \<and>
           (\<forall>(k, cs) \<in> set css'. ComponentStore_inv cs \<and> entityHandler (cs_set cs) = h)"
  using assms
proof (induction css)
  case Nil
  then show ?case by simp
next
  case (Cons kc css)
  obtain k cs where kc: "kc = (k, cs)" by (cases kc)
  from Cons.prems kc have inv: "ComponentStore_inv cs" and h: "entityHandler (cs_set cs) = h"
    by simp_all
  from Cons.IH Cons.prems obtain css' where
    r: "removeAll_loop css e = Inr css'" and p: "list_all2 (purged e) css css'" and
    i: "\<forall>(k, cs) \<in> set css'. ComponentStore_inv cs \<and> entityHandler (cs_set cs) = h"
    by auto
  from Cons.prems(2) h obtain b where c: "ComponentStore_contains cs e = Inr b"
    by (simp add: ComponentStore_contains_def SparseSet_contains_cell)
  show ?case
  proof (cases b)
    case False
    with c have "purged e (k, cs) (k, cs)" by (simp add: purged_def)
    with False c r p i inv h kc show ?thesis
      by (simp add: ebind_def)
  next
    case True
    with c have ct: "ComponentStore_contains cs e = Inr True" by simp
    from ComponentStore_remove_contained [OF inv ct] obtain st' where
      rm: "ComponentStore_remove cs e = Inr (SUCCESS_OPERATION, st')" and
      l: "ComponentStore_len st' = ComponentStore_len cs - 1" and
      nc: "ComponentStore_contains st' e = Inr False" and
      inv': "ComponentStore_inv st'"
      by blast
    from ComponentStore_remove_handler [OF rm] h have h': "entityHandler (cs_set st') = h"
      by simp
    from ct l nc have "purged e (k, cs) (k, st')" by (simp add: purged_def)
    with ct rm r p i inv' h' kc show ?thesis
      by (simp add: ebind_def)
  qed
qed

lemma valid_InrD:
  "valid r e = Inr b \<Longrightarrow> \<exists>idx. handle_index (es_entityHandler (r_entities r)) e = Inr idx"
  by (auto simp add: valid_def EntityStore_isAlive_def ebind_def split: sum.splits)

lemma destroy_live:
  assumes inv: "Registry_inv r" and v: "valid r e = Inr True"
  shows "\<exists>r'. destroy r e = Inr r' \<and> valid r' e = Inr False \<and>
           handle_index (es_entityHandler (r_entities r)) e = Inr (free_slot (r_entities r')) \<and>
           list_all2 (purged e) (r_components r) (r_components r') \<and>
           Registry_inv r'"
proof -
  let ?h = "es_entityHandler (r_entities r)"
  from inv have ok: "handle_ok ?h"
    and len: "append_index (r_entities r) \<le> int (length (es_entities (r_entities r)))"
    and st: "\<forall>(k, cs) \<in> set (r_components r). ComponentStore_inv cs \<and> entityHandler (cs_set cs) = ?h"
    by (simp_all add: Registry_inv_def)
  from valid_InrD [OF v] obtain idx where idx: "handle_index ?h e = Inr idx" by blast
  from removeAll_loop_purges [OF st idx] obtain css' where
    l: "removeAll_loop (r_components r) e = Inr css'" and
    p: "list_all2 (purged e) (r_components r) css'" and
    i: "\<forall>(k, cs) \<in> set css'. ComponentStore_inv cs \<and> entityHandler (cs_set cs) = ?h"
    by blast
  from v have alive: "EntityStore_isAlive (r_entities r) e = Inr True" by (simp add: valid_def)
  from ok have f: "EntityHandleFactory (int (indexBits ?h)) (int (versionBits ?h)) = Inr ?h"
    and b: "int (indexBits ?h) \<le> 53" "int (versionBits ?h) \<le> 53"
    by (simp_all add: handle_ok_def)
  from remove_live [OF f b len alive] idx obtain st1 ents' where
    rm: "EntityStore_remove (r_entities r) e = Inr st1" and
    s1: "st1 = (r_entities r)\<lparr> es_entities := ents', free_slot := idx \<rparr>" and
    le: "length ents' = length (es_entities (r_entities r))" and
    na: "EntityStore_isAlive st1 e = Inr False"
    by auto
  have d: "destroy r e = Inr (r\<lparr> r_components := css', r_entities := st1 \<rparr>)"
    using v alive l rm by (simp add: destroy_def removeAll_def ebind_def)
  show ?thesis
    unfolding d using na p i idx ok len le
    by (simp add: valid_def Registry_inv_def s1)
qed

lemma not_live_fails:
  assumes "valid r e = Inr False"
  shows "destroy r e = Inr r"
    "removeAll r e = Inl EntityDoesNotExist"
    "Registry_add construct r e T CType args config = Inl EntityDoesNotExist"
    "addComps construct r e comps = Inl EntityDoesNotExist"
    "replace construct r e T args = Inl EntityDoesNotExist"
    "fetchReplace construct r e T args = Inl EntityDoesNotExist"
    "Registry_remove r e T = Inl EntityDoesNotExist"
    "removeIfExist r e T = Inl EntityDoesNotExist"
    "has r e T = Inl EntityDoesNotExist"
    "Registry_get r e T = Inl EntityDoesNotExist"
    "Registry_getConst r e T = Inl EntityDoesNotExist"
  using assms
  by (simp_all add: valid_def destroy_def removeAll_def Registry_add_def addComps_def replace_def
      fetchReplace_def Registry_remove_def removeIfExist_def has_def Registry_get_def
      Registry_getConst_def ebind_def)


lemma purge_scenario_eval:
  "\<exists>r. purge_scenario = Inr r \<and>
     r_components r = [(0, abd_store), (1, b_store)] \<and>
     es_entityHandler (r_entities r) = EntityHandleMedium \<and>
     append_index (r_entities r) = 3 \<and>
     length (es_entities (r_entities r)) = 4 \<and>
     valid r (Num 0) = Inr True \<and>
     valid r (Num 1) = Inr False \<and>
     valid r (Big 5) = Inl TypeError"
  by (simp add: purge_scenario_def abd_store_def abd_set_def b_store_def b_set_def model_defs
      cong: ebind_weak_cong)

lemma b_set_inv: "SparseSet_inv b_set"
proof -
  let ?s = "b_set"
  have ok: "pageSize_ok ?s"
    unfolding pageSize_ok_def by (intro exI [of _ 7]) (simp add: b_set_def)
  have ix: "handle_index (entityHandler ?s) (dense ?s ! nat 0) = Inr 1 \<and> cell ?s 1 = Some 0"
    by (simp add: b_set_def cell_def model_defs)
  have cells: "k = 1 \<and> v = 0" if "cell ?s k = Some v" for k v
  proof -
    from that have d: "k div 128 = 0" and m: "[1 \<mapsto> 0] (k mod 128) = Some v"
      unfolding cell_def js_and_pageSize [OF ok]
      by (auto simp add: b_set_def split: if_splits option.splits)
    from d have "k mod 128 = k" by (metis add.left_neutral mult_div_mod_eq mult_zero_right)
    with m show ?thesis by (auto split: if_splits)
  qed
  show ?thesis
    unfolding SparseSet_inv_def
  proof (intro conjI allI impI ballI)
    show "pageSize_ok ?s" by (rule ok)
    show "0 \<le> slength ?s" "slength ?s \<le> int (length (dense ?s))"
      by (simp_all add: b_set_def)
  next
    fix i assume "0 \<le> i \<and> i < slength ?s"
    then have "i = 0" by (simp add: b_set_def)
    with ix
    show "\<exists>k. handle_index (entityHandler ?s) (dense ?s ! nat i) = Inr k \<and> cell ?s k = Some i"
      by simp
  next
    fix k v assume c: "cell ?s k = Some v"
    from cells [OF c] show "-1 \<le> v" by simp
    assume "0 \<le> v \<and> v < slength ?s"
    with cells [OF c] ix
    show "handle_index (entityHandler ?s) (dense ?s ! nat v) = Inr k" by simp
  next
    fix x assume "x \<in> set (dense ?s)"
    then show "to_elem (dense_kind ?s) x = Inr x"
      by (auto simp add: b_set_def dense_kind_def toUint32_def)
  qed
qed

lemma b_store_inv: "ComponentStore_inv b_store"
  using b_set_inv
  by (simp add: ComponentStore_inv_def b_store_def) (simp add: b_set_def)

lemma Medium_ok: "handle_ok EntityHandleMedium"
  by (simp add: handle_ok_def EntityHandleFactory_def EntityHandleMedium_def EntityType.simps)

lemma valid_raises:
  assumes "valid r e = Inl err"
  shows "destroy r e = Inl err"
    "removeAll r e = Inl err"
    "Registry_add construct r e T CType args config = Inl err"
    "addComps construct r e comps = Inl err"
    "replace construct r e T args = Inl err"
    "fetchReplace construct r e T args = Inl err"
    "Registry_remove r e T = Inl err"
    "removeIfExist r e T = Inl err"
    "has r e T = Inl err"
    "Registry_get r e T = Inl err"
    "Registry_getConst r e T = Inl err"
  using assms
  by (simp_all add: valid_def destroy_def removeAll_def Registry_add_def addComps_def replace_def
      fetchReplace_def Registry_remove_def removeIfExist_def has_def Registry_get_def
      Registry_getConst_def ebind_def)

lemma valid_Inl_iff:
  "valid r e = Inl err \<longleftrightarrow> handle_index (es_entityHandler (r_entities r)) e = Inl err"
  by (auto simp add: valid_def EntityStore_isAlive_def ebind_def split: sum.splits)

lemma tryGet_no_liveness:
  "Registry_tryGet (r\<lparr> r_entities := es \<rparr>) e T = Registry_tryGet r e T"
  "Registry_tryGetConst (r\<lparr> r_entities := es \<rparr>) e T = Registry_tryGetConst r e T"
  by (simp_all add: Registry_tryGet_def Registry_tryGetConst_def)





end
